theory Spec2Isabelle
  imports Main
begin

section \<open>JavaScript values\<close>

text \<open>
  The values the connection object handles: the primitives, and the containers that
  \<open>JSON.parse\<close> builds. \<open>Num\<close> holds the integer-valued numbers below \<open>10^21\<close> in
  magnitude (clock readings in milliseconds, ids), which JavaScript prints in decimal.
  An object is the list of its own properties, each name once. Containers are compared
  by identity in JavaScript; two containers met here always come from separate
  literals or separate \<open>JSON.parse\<close> calls, so they are never the same object.
\<close>

datatype jsval =
    Undefined
  | Null
  | Bool bool
  | Num int
  | Str string
  | Arr "jsval list"
  | Obj "(string \<times> jsval) list"

text \<open>\<open>!v\<close> is \<open>\<not> truthy v\<close>.\<close>

fun truthy :: "jsval \<Rightarrow> bool" where
  "truthy Undefined = False"
| "truthy Null = False"
| "truthy (Bool b) = b"
| "truthy (Num n) = (n \<noteq> 0)"
| "truthy (Str s) = (s \<noteq> [])"
| "truthy (Arr xs) = True"
| "truthy (Obj kvs) = True"

text \<open>Decimal digits of a number, as \<open>String(n)\<close> prints an integer.\<close>

definition digit :: "nat \<Rightarrow> char" where
  "digit d = ''0123456789'' ! (d mod 10)"

fun show_nat :: "nat \<Rightarrow> string" where
  "show_nat n = (if n < 10 then [digit n] else show_nat (n div 10) @ [digit (n mod 10)])"

declare show_nat.simps [simp del]

definition show_int :: "int \<Rightarrow> string" where
  "show_int i = (if i < 0 then CHR ''-'' # show_nat (nat (- i)) else show_nat (nat i))"

fun join :: "string \<Rightarrow> string list \<Rightarrow> string" where
  "join sep [] = []"
| "join sep [x] = x"
| "join sep (x # y # ys) = x @ sep @ join sep (y # ys)"

text \<open>
  \<open>ToString\<close>, the conversion that \<open>+\<close> applies to the other operand when one operand
  is a string. An array prints its elements joined by commas, with \<open>null\<close> and
  \<open>undefined\<close> elements printed empty.
\<close>

fun toString :: "jsval \<Rightarrow> string" where
  "toString Undefined = ''undefined''"
| "toString Null = ''null''"
| "toString (Bool b) = (if b then ''true'' else ''false'')"
| "toString (Num n) = show_int n"
| "toString (Str s) = s"
| "toString (Arr xs) =
     join '','' (map (\<lambda>x. if x = Undefined \<or> x = Null then [] else toString x) xs)"
| "toString (Obj kvs) = ''[object Object]''"

text \<open>\<open>a === b\<close>.\<close>

fun strict_eq :: "jsval \<Rightarrow> jsval \<Rightarrow> bool" where
  "strict_eq (Arr xs) b = False"
| "strict_eq (Obj kvs) b = False"
| "strict_eq a b = (a = b)"

text \<open>
  Reading a property of \<open>undefined\<close> or \<open>null\<close> throws a TypeError. On any other value
  \<open>get_prop v name\<close> is the read \<open>v.name\<close> for the names \<open>type\<close>, \<open>market\<close>,
  \<open>channel\<close> and \<open>data\<close>, which no prototype defines: a missing property reads as
  \<open>undefined\<close>.
\<close>

fun nullish :: "jsval \<Rightarrow> bool" where
  "nullish Undefined = True"
| "nullish Null = True"
| "nullish v = False"

fun get_prop :: "jsval \<Rightarrow> string \<Rightarrow> jsval" where
  "get_prop (Obj kvs) name = (case map_of kvs name of None \<Rightarrow> Undefined | Some v \<Rightarrow> v)"
| "get_prop v name = Undefined"

section \<open>Topic keys\<close>

text \<open>
  \<^verbatim>\<open>
  toId(market, channel) {
    if(!market) { return channel; }
    return market + '::' + channel;
  }
  \<close>
\<close>

definition toId :: "jsval \<Rightarrow> jsval \<Rightarrow> jsval" where
  "toId market channel =
     (if \<not> truthy market then channel
      else Str (toString market @ ''::'' @ toString channel))"

definition PONG :: string where
  \<open>PONG = ''{"type": "pong"}''\<close>

section \<open>The connection object and its environment\<close>

text \<open>
  \<open>pingAt\<close> and \<open>pongAt\<close> are never initialised by the constructor (\<open>undefined\<close>,
  here \<open>Unset\<close>), are set to \<open>false\<close> by \<open>reconnect\<close> (\<open>Cleared\<close>), and otherwise
  hold a clock reading \<open>+new Date\<close>, in milliseconds since the epoch.
\<close>

datatype stamp = Unset | Cleared | At nat

fun stamp_val :: "stamp \<Rightarrow> jsval" where
  "stamp_val Unset = Undefined"
| "stamp_val Cleared = Bool False"
| "stamp_val (At n) = Num (int n)"

text \<open>\<open>ToNumber\<close>; \<open>None\<close> is \<open>NaN\<close>, with which every comparison is false.\<close>

fun toNumber :: "stamp \<Rightarrow> int option" where
  "toNumber Unset = None"
| "toNumber Cleared = Some 0"
| "toNumber (At n) = Some (int n)"

fun num_minus :: "int option \<Rightarrow> int option \<Rightarrow> int option" where
  "num_minus (Some a) (Some b) = Some (a - b)"
| "num_minus a b = None"

fun num_less :: "int option \<Rightarrow> int option \<Rightarrow> bool" where
  "num_less (Some a) (Some b) = (a < b)"
| "num_less a b = False"

definition STALE_TIMEOUT :: int where
  "STALE_TIMEOUT = 2000"

definition DEFAULT_ENDPOINT :: string where
  "DEFAULT_ENDPOINT = ''ftx.com/ws/''"

datatype error =
    TypeError
  | NotConnected  \<comment> \<open>\<open>new Error('Not connected.')\<close>\<close>
  | UnhandledError  \<comment> \<open>\<open>ERR_UNHANDLED_ERROR\<close>, thrown by \<open>EventEmitter.emit\<close>\<close>

text \<open>
  How a call ends its first run to completion: it returned (an \<open>async\<close> function: its
  promise is fulfilled with the value), it threw (an \<open>async\<close> function: its promise is
  rejected at once), or it is suspended at an \<open>await\<close>.
\<close>

datatype 'a completion = Done 'a | Failed error | Pending

text \<open>
  The rest of an \<open>async\<close> function after an \<open>await\<close>:
  \<^item> \<open>SendK payload\<close>: \<open>sendMessage\<close> after \<open>await this.afterReconnect\<close>;
  \<^item> \<open>SubscribeK id channel market\<close>: \<open>subscribe\<close> after \<open>await this.afterReconnect\<close>;
  \<^item> \<open>AuthenticateK\<close>: \<open>authenticate\<close> after \<open>await this.connect()\<close>;
  \<^item> \<open>ReconnectWaitedK hook\<close>: \<open>reconnect\<close> after \<open>await wait(500)\<close>;
  \<^item> \<open>ReconnectConnectedK hook\<close>: \<open>reconnect\<close> after \<open>await this.connect()\<close>;
  \<^item> \<open>ConnectK caller\<close>: \<open>connect\<close> after \<open>await this._connect()\<close>, where \<open>caller\<close>
    is the continuation awaiting the promise of this \<open>connect()\<close> call, if the
    connection itself awaits it.
  \<open>hook\<close> is the promise that the local variable \<open>hook\<close> of \<open>reconnect\<close> resolves.
\<close>

datatype cont =
    SendK jsval
  | SubscribeK jsval jsval jsval
  | AuthenticateK
  | ReconnectWaitedK nat
  | ReconnectConnectedK nat
  | ConnectK "cont option"

text \<open>
  A promise made by \<open>new Promise\<close>, with the continuations of the connection's own
  functions awaiting it. What a caller does on a promise it was handed is outside the
  model: a caller sees a promise fulfilled or still pending.
\<close>

datatype pstate = PendingP "cont list" | Fulfilled

text \<open>
  A subscription object. \<open>doneHook\<close> and \<open>done\<close> are \<open>false\<close> (\<open>None\<close>) in the literal
  and are then the resolver of a promise and that promise, named by its index in the
  promise store.
\<close>

record subscription =
  id' :: jsval
  channel :: jsval
  market :: jsval
  doneHook :: "nat option"
  done' :: "nat option"

text \<open>The library functions the connection calls.\<close>

record lib =
  JSON_parse :: "string \<Rightarrow> jsval option"  \<comment> \<open>\<open>None\<close>: throws SyntaxError\<close>
  JSON_stringify :: "jsval \<Rightarrow> string"
  hmac_sha256_hex :: "string \<Rightarrow> string \<Rightarrow> string"
    \<comment> \<open>\<open>crypto.createHmac('sha256', key).update(msg).digest('hex')\<close>\<close>

record conf =
  conf_key :: jsval
  conf_secret :: jsval
  conf_subaccount :: jsval
  conf_endpoint :: jsval

text \<open>
  The fields of the \<open>Connection\<close> object, with the names under which its base class
  \<open>EventEmitter\<close> holds a listener, followed by what lies outside it: the promise
  store and the microtask queue of the runtime; the transports constructed, each with
  its URL and the continuations awaiting its open event; the one-shot timers of
  \<open>wait\<close>, each with the continuation it resumes until it has fired; the interval
  timers, each active or cleared; and the traces of what the object did (frames given
  to \<open>ws.send\<close>, calls of \<open>ws.terminate\<close>, events emitted, console lines without their
  leading \<open>new Date\<close>). A transport, a timer and a promise are named by their index.
\<close>

record conn =
  key :: jsval
  secret :: jsval
  subaccount :: jsval
  WSendpoint :: jsval
  connected :: bool
  isReadyHook :: nat
  isReady :: nat
  authenticated :: bool
  reconnecting :: bool
  afterReconnect :: "nat option"
  subscriptions :: "subscription list"
  lastMessageAt :: nat
  pingAt :: stamp
  pongAt :: stamp
  heartbeat :: "nat option"
  listeners :: "jsval list"
  promises :: "pstate list"
  microtasks :: "cont list"
  sockets :: "(string \<times> cont list) list"
  timeouts :: "cont option list"
  intervals :: "bool list"
  wire :: "string list"
  terminations :: nat
  emitted :: "(jsval \<times> jsval) list"
  logs :: "(string \<times> jsval list) list"

definition new_promise :: "conn \<Rightarrow> nat \<times> conn" where
  "new_promise st = (length (promises st), st\<lparr>promises := promises st @ [PendingP []]\<rparr>)"

definition enqueue :: "cont \<Rightarrow> conn \<Rightarrow> conn" where
  "enqueue k st = st\<lparr>microtasks := microtasks st @ [k]\<rparr>"

text \<open>
  Calling the resolver of promise \<open>p\<close>: the first call fulfils it and queues the
  continuations awaiting it, later calls do nothing.
\<close>

definition resolve :: "nat \<Rightarrow> conn \<Rightarrow> conn" where
  "resolve p st =
     (if p < length (promises st) then
        (case promises st ! p of
           PendingP ks \<Rightarrow>
             st\<lparr>promises := (promises st)[p := Fulfilled], microtasks := microtasks st @ ks\<rparr>
         | Fulfilled \<Rightarrow> st)
      else st)"

text \<open>
  \<open>await v\<close> with the rest of the function \<open>k\<close>: on a pending promise \<open>k\<close> joins its
  waiters; on a fulfilled promise, and on \<open>undefined\<close>, \<open>k\<close> is queued as a microtask.
\<close>

definition await :: "nat option \<Rightarrow> cont \<Rightarrow> conn \<Rightarrow> conn" where
  "await v k st =
     (case v of
        None \<Rightarrow> enqueue k st
      | Some p \<Rightarrow>
          (if p < length (promises st) then
             (case promises st ! p of
                PendingP ks \<Rightarrow> st\<lparr>promises := (promises st)[p := PendingP (ks @ [k])]\<rparr>
              | Fulfilled \<Rightarrow> enqueue k st)
           else st))"

definition log :: "string \<Rightarrow> jsval list \<Rightarrow> conn \<Rightarrow> conn" where
  "log msg args st = st\<lparr>logs := logs st @ [(msg, args)]\<rparr>"

text \<open>
  \<open>this.ws.send(frame)\<close>. It is reached when the connection is connected or has been
  reconnecting, that is after \<open>_connect\<close> has made a transport.
\<close>

definition ws_send :: "string \<Rightarrow> conn \<Rightarrow> conn" where
  "ws_send frame st = st\<lparr>wire := wire st @ [frame]\<rparr>"

text \<open>
  \<open>this.on(name, listener)\<close> and \<open>this.emit(name, v)\<close> of \<open>EventEmitter\<close>. Listeners are
  held under the property key of the name. \<open>emit\<close> of the name \<open>'error'\<close> throws when no
  listener is held under \<open>error\<close>; any other call delivers the event to the listeners
  held under its name.
\<close>

definition on :: "jsval \<Rightarrow> conn \<Rightarrow> conn" where
  "on name st = st\<lparr>listeners := listeners st @ [name]\<rparr>"

definition emit :: "jsval \<Rightarrow> jsval \<Rightarrow> conn \<Rightarrow> unit completion \<times> conn" where
  "emit name v st =
     (if strict_eq name (Str ''error'') \<and> ''error'' \<notin> set (map toString (listeners st))
      then (Failed UnhandledError, st)
      else (Done (), st\<lparr>emitted := emitted st @ [(name, v)]\<rparr>))"

definition setInterval :: "conn \<Rightarrow> nat \<times> conn" where
  "setInterval st = (length (intervals st), st\<lparr>intervals := intervals st @ [True]\<rparr>)"

definition clearInterval :: "nat option \<Rightarrow> conn \<Rightarrow> conn" where
  "clearInterval h st =
     (case h of None \<Rightarrow> st | Some i \<Rightarrow> st\<lparr>intervals := (intervals st)[i := False]\<rparr>)"

text \<open>
  \<^verbatim>\<open>
  constructor(conf = {}) {
    this.key = conf.key; this.secret = conf.secret; this.subaccount = conf.subaccount;
    this.WSendpoint = conf.endpoint || DEFAULT_ENDPOINT;
    this.connected = false;
    this.isReadyHook = false;
    this.isReady = new Promise((r => this.isReadyHook = r));
    this.authenticated = false; this.reconnecting = false; this.afterReconnect;
    this.subscriptions = [];
    this.lastMessageAt = 0;
  }
  \<close>
\<close>

definition Connection :: "conf \<Rightarrow> conn" where
  "Connection c =
     \<lparr>key = conf_key c, secret = conf_secret c, subaccount = conf_subaccount c,
      WSendpoint = (if truthy (conf_endpoint c) then conf_endpoint c else Str DEFAULT_ENDPOINT),
      connected = False, isReadyHook = 0, isReady = 0, authenticated = False,
      reconnecting = False, afterReconnect = None, subscriptions = [],
      lastMessageAt = 0, pingAt = Unset, pongAt = Unset, heartbeat = None, listeners = [],
      promises = [PendingP []], microtasks = [], sockets = [], timeouts = [], intervals = [],
      wire = [], terminations = 0, emitted = [], logs = []\<rparr>"

section \<open>Sending and subscribing\<close>

text \<open>
  \<^verbatim>\<open>
  sendMessage = async (payload) => {
    if(!this.connected) {
      if(!this.reconnecting) { throw new Error('Not connected.') }
      await this.afterReconnect;
    }
    this.ws.send(JSON.stringify(payload));
  }
  \<close>
\<close>

definition sendMessage :: "lib \<Rightarrow> jsval \<Rightarrow> conn \<Rightarrow> unit completion \<times> conn" where
  "sendMessage L payload st =
     (if \<not> connected st then
        (if \<not> reconnecting st then (Failed NotConnected, st)
         else (Pending, await (afterReconnect st) (SendK payload) st))
      else (Done (), ws_send (JSON_stringify L payload) st))"

definition subscribe_message :: "subscription \<Rightarrow> jsval" where
  "subscribe_message sub =
     Obj [(''op'', Str ''subscribe''), (''market'', market sub), (''channel'', channel sub)]"

text \<open>
  \<^verbatim>\<open>
  _subscribe(sub) {
    sub.done = new Promise(r => sub.doneHook = r);
    const message = { op: 'subscribe', market: sub.market, channel: sub.channel }
    this.sendMessage(message);
  }
  \<close>
  This is \<open>_subscribe\<close>. \<open>sub\<close> is a reference to an element of
  \<open>this.subscriptions\<close>: here its index. The promise that \<open>sendMessage\<close> returns is
  dropped.
\<close>

definition u_subscribe :: "lib \<Rightarrow> nat \<Rightarrow> conn \<Rightarrow> conn" where
  "u_subscribe L i st =
     (if i < length (subscriptions st) then
        (let (p, st1) = new_promise st;
             sub = (subscriptions st1 ! i)\<lparr>doneHook := Some p, done' := Some p\<rparr>;
             st2 = st1\<lparr>subscriptions := (subscriptions st1)[i := sub]\<rparr>
         in snd (sendMessage L (subscribe_message sub) st2))
      else st)"

text \<open>
  \<open>subscribe\<close> from the duplicate check on, which runs at once when connected and as
  the continuation \<open>SubscribeK\<close> otherwise. It returns \<open>sub.done\<close>, or \<open>undefined\<close>
  (\<open>None\<close>) when it refuses.
\<close>

definition subscribe_resume ::
  "lib \<Rightarrow> jsval \<Rightarrow> jsval \<Rightarrow> jsval \<Rightarrow> conn \<Rightarrow> nat option completion \<times> conn" where
  "subscribe_resume L i chan mkt st =
     (if list_ex (\<lambda>x. strict_eq x i) (map id' (subscriptions st)) then
        (Done None, log ''refusing to channel subscribe twice'' [mkt, chan] st)
      else
        (let sub = \<lparr>id' = i, channel = chan, market = mkt, doneHook = None, done' = None\<rparr>;
             n = length (subscriptions st);
             st1 = st\<lparr>subscriptions := subscriptions st @ [sub]\<rparr>;
             st2 = u_subscribe L n st1
         in (Done (done' (subscriptions st2 ! n)), st2)))"

text \<open>
  \<^verbatim>\<open>
  subscribe = async (channel, market = undefined) => {
    const id = this.toId(market, channel);
    if(!this.connected) {
      if(!this.reconnecting) { throw new Error('Not connected.') }
      await this.afterReconnect;
    }
    if(this.subscriptions.map(s => s.id).includes(id)) {
      return console.error(new Date, 'refusing to channel subscribe twice', market, channel);
    }
    const sub = { id, channel, market, doneHook: false, done: false }
    this.subscriptions.push(sub);
    this._subscribe(sub);
    return sub.done;
  }
  \<close>
\<close>

definition subscribe ::
  "lib \<Rightarrow> jsval \<Rightarrow> jsval \<Rightarrow> conn \<Rightarrow> nat option completion \<times> conn" where
  "subscribe L chan mkt st =
     (let i = toId mkt chan in
      if \<not> connected st then
        (if \<not> reconnecting st then (Failed NotConnected, st)
         else (Pending, await (afterReconnect st) (SubscribeK i chan mkt) st))
      else subscribe_resume L i chan mkt st)"

section \<open>Connecting and authenticating\<close>

text \<open>
  \<^verbatim>\<open>
  _connect() {
    if(this.connected) { return; }
    return new Promise((resolve, reject) => {
      this.ws = new WebSocket(`wss://${this.WSendpoint}`);
      this.ws.onmessage = this.handleWSMessage;
      this.ws.onopen = () => { ... resolve(); }
      this.ws.onerror = ...; this.ws.onclose = ...;
      this.heartbeat = setInterval(this.ping, 5 * 1000);
    });
  }
  \<close>
  This is \<open>_connect\<close>. The result is \<open>undefined\<close> (\<open>None\<close>) or the promise that the
  open event of the new transport resolves, named by the index of that transport.
\<close>

definition u_connect :: "conn \<Rightarrow> nat option \<times> conn" where
  "u_connect st =
     (if connected st then (None, st)
      else
        (let i = length (sockets st);
             st1 = st\<lparr>sockets := sockets st @ [(''wss://'' @ toString (WSendpoint st), [])]\<rparr>;
             (h, st2) = setInterval st1
         in (Some i, st2\<lparr>heartbeat := Some h\<rparr>)))"

text \<open>
  \<^verbatim>\<open>
  connect = async () => {
    await this._connect();
    if(this.key) { this.authenticate(); }
  }
  \<close>
  Up to the \<open>await\<close>; the rest is \<open>ConnectK\<close>.
\<close>

definition await_open :: "nat \<Rightarrow> cont \<Rightarrow> conn \<Rightarrow> conn" where
  "await_open i k st =
     (if i < length (sockets st) then
        (case sockets st ! i of
           (url, ks) \<Rightarrow> st\<lparr>sockets := (sockets st)[i := (url, ks @ [k])]\<rparr>)
      else st)"

definition connect :: "cont option \<Rightarrow> conn \<Rightarrow> conn" where
  "connect caller st =
     (case u_connect st of
        (None, st1) \<Rightarrow> enqueue (ConnectK caller) st1
      | (Some i, st1) \<Rightarrow> await_open i (ConnectK caller) st1)"

definition login_message :: "lib \<Rightarrow> nat \<Rightarrow> string \<Rightarrow> jsval \<Rightarrow> jsval \<Rightarrow> jsval" where
  "login_message L date s k sa =
     Obj [(''op'', Str ''login''),
          (''args'', Obj [(''key'', k),
                         (''sign'', Str (hmac_sha256_hex L s (show_nat date @ ''websocket_login''))),
                         (''time'', Num (int date)),
                         (''subaccount'', sa)])]"

text \<open>
  \<open>authenticate\<close> after its connectivity guard. \<open>crypto.createHmac\<close> throws a TypeError
  on a key that is not a string.
\<close>

definition authenticate_resume :: "lib \<Rightarrow> nat \<Rightarrow> conn \<Rightarrow> unit completion \<times> conn" where
  "authenticate_resume L date st =
     (case secret st of
        Str s \<Rightarrow>
          (let message = login_message L date s (key st) (subaccount st);
               st1 = snd (sendMessage L message st)
           in (Done (), st1\<lparr>authenticated := True\<rparr>))
      | _ \<Rightarrow> (Failed TypeError, st))"

text \<open>
  \<^verbatim>\<open>
  authenticate = async () => {
    if(!this.connected) { await this.connect(); }
    const date = +new Date;
    const signature = crypto.createHmac('sha256', this.secret)
      .update(date + 'websocket_login').digest('hex');
    const message = { op: 'login',
      args: { key: this.key, sign: signature, time: date, subaccount: this.subaccount } }
    this.sendMessage(message);
    this.authenticated = true;
  }
  \<close>
\<close>

definition authenticate :: "lib \<Rightarrow> nat \<Rightarrow> conn \<Rightarrow> unit completion \<times> conn" where
  "authenticate L date st =
     (if \<not> connected st then (Pending, connect (Some AuthenticateK) st)
      else authenticate_resume L date st)"

section \<open>The liveness monitor\<close>

text \<open>
  \<^verbatim>\<open>
  terminate = async() => {
    console.log(new Date, '[FTX] TERMINATED WS CON');
    this.ws.terminate();
    this.authenticated = false;
    this.connected = false;
  }
  \<close>
  \<open>this.ws\<close> is the transport made last. Before \<open>_connect\<close> has made one it is
  \<open>undefined\<close>, and \<open>this.ws.terminate()\<close> throws a TypeError.
\<close>

definition terminate :: "conn \<Rightarrow> unit completion \<times> conn" where
  "terminate st =
     (let st1 = log ''[FTX] TERMINATED WS CON'' [] st
      in if sockets st1 = [] then (Failed TypeError, st1)
         else (Done (),
               st1\<lparr>terminations := Suc (terminations st1), authenticated := False,
                  connected := False\<rparr>))"

text \<open>
  \<^verbatim>\<open>
  ping = () => {
    if(this.pingAt && this.pongAt > this.pingAt && this.pongAt - this.pingAt > STALE_TIMEOUT) {
      console.error(new Date, '[FTX] did NOT receive pong in time, reconnecting',
        { pingAt: this.pingAt, pongAt: this.pongAt });
      return this.terminate();
    }
    this.pingAt = +new Date;
    this.sendMessage({op: 'ping'});
  }
  \<close>
\<close>

definition ping :: "lib \<Rightarrow> nat \<Rightarrow> conn \<Rightarrow> conn" where
  "ping L now st =
     (if truthy (stamp_val (pingAt st))
         \<and> num_less (toNumber (pingAt st)) (toNumber (pongAt st))
         \<and> num_less (Some STALE_TIMEOUT) (num_minus (toNumber (pongAt st)) (toNumber (pingAt st)))
      then
        snd (terminate (log ''[FTX] did NOT receive pong in time, reconnecting''
          [Obj [(''pingAt'', stamp_val (pingAt st)), (''pongAt'', stamp_val (pongAt st))]] st))
      else snd (sendMessage L (Obj [(''op'', Str ''ping'')]) (st\<lparr>pingAt := At now\<rparr>)))"

section \<open>The message router\<close>

text \<open>
  The loop of the \<open>subscribed\<close> branch; \<open>sub.doneHook()\<close> on a hook that is still
  \<open>false\<close> throws a TypeError out of the loop.
\<close>

fun acknowledge :: "jsval \<Rightarrow> jsval \<Rightarrow> subscription list \<Rightarrow> conn \<Rightarrow> unit completion \<times> conn" where
  "acknowledge m c [] st = (Done (), st)"
| "acknowledge m c (sub # subs) st =
     (if strict_eq (market sub) m \<and> strict_eq (channel sub) c then
        (case doneHook sub of
           None \<Rightarrow> (Failed TypeError, st)
         | Some p \<Rightarrow> acknowledge m c subs (resolve p st))
      else acknowledge m c subs st)"

text \<open>
  \<^verbatim>\<open>
  handleWSMessage = e => {
    this.lastMessageAt = +new Date;
    let payload;
    if(e.data === PONG && this.lastMessageAt - this.pingAt < 5000) {
      this.pongAt = this.lastMessageAt;
      return;
    }
    try { payload = JSON.parse(e.data); }
    catch(e) { console.error('ftx send bad json', e.data); }
    if(payload.type === 'subscribed') {
      this.subscriptions.forEach(sub => {
        if(sub.market === payload.market && sub.channel === payload.channel) { sub.doneHook(); }
      });
    }
    else if(payload.type === 'update' || payload.type === 'partial') {
      const id = this.toId(payload.market, payload.channel);
      this.emit(id, payload.data);
    }
    else { console.log(new Date, '[FTX] unhandled WS event', payload); }
  }
  \<close>
  \<open>dat\<close> is the text \<open>e.data\<close> of the frame. In the \<open>catch\<close> clause \<open>e\<close> is the
  SyntaxError caught, which has no \<open>data\<close> property: the line logged carries
  \<open>undefined\<close>. \<open>payload\<close> then still is \<open>undefined\<close>, and \<open>payload.type\<close> throws.
\<close>

definition handleWSMessage :: "lib \<Rightarrow> nat \<Rightarrow> string \<Rightarrow> conn \<Rightarrow> unit completion \<times> conn" where
  "handleWSMessage L now dat st0 =
     (let st = st0\<lparr>lastMessageAt := now\<rparr> in
      if dat = PONG
         \<and> num_less (num_minus (Some (int (lastMessageAt st))) (toNumber (pingAt st))) (Some 5000)
      then (Done (), st\<lparr>pongAt := At (lastMessageAt st)\<rparr>)
      else
        (let (payload, st1) =
               (case JSON_parse L dat of
                  Some v \<Rightarrow> (v, st)
                | None \<Rightarrow> (Undefined, log ''ftx send bad json'' [Undefined] st))
         in if nullish payload then (Failed TypeError, st1)
            else if strict_eq (get_prop payload ''type'') (Str ''subscribed'') then
              acknowledge (get_prop payload ''market'') (get_prop payload ''channel'')
                (subscriptions st1) st1
            else if strict_eq (get_prop payload ''type'') (Str ''update'')
                    \<or> strict_eq (get_prop payload ''type'') (Str ''partial'') then
              emit (toId (get_prop payload ''market'') (get_prop payload ''channel''))
                   (get_prop payload ''data'') st1
            else (Done (), log ''[FTX] unhandled WS event'' [payload] st1)))"

section \<open>Reconnection\<close>

text \<open>\<open>await wait(500)\<close>: a timer whose callback resumes \<open>k\<close>.\<close>

definition await_wait :: "cont \<Rightarrow> conn \<Rightarrow> conn" where
  "await_wait k st = st\<lparr>timeouts := timeouts st @ [Some k]\<rparr>"

text \<open>
  \<^verbatim>\<open>
  reconnect = async () => {
    this.reconnecting = true;
    this.pingAt = false;
    this.pongAt = false;
    let hook;
    this.afterReconnect = new Promise(r => hook = r);
    this.isReady = new Promise((r => this.isReadyHook = r));
    await wait(500);
    console.log(new Date, '[FTX] RECONNECTING...');
    await this.connect();
    hook();
    this.isReadyHook();
    this.subscriptions.forEach(sub => { this._subscribe(sub); });
  }
  \<close>
  Up to the first \<open>await\<close>; the rest is \<open>ReconnectWaitedK\<close> and \<open>ReconnectConnectedK\<close>.
\<close>

definition reconnect :: "conn \<Rightarrow> conn" where
  "reconnect st =
     (let st1 = st\<lparr>reconnecting := True, pingAt := Cleared, pongAt := Cleared\<rparr>;
          (hook, st2) = new_promise st1;
          st3 = st2\<lparr>afterReconnect := Some hook\<rparr>;
          (r, st4) = new_promise st3;
          st5 = st4\<lparr>isReady := r, isReadyHook := r\<rparr>
      in await_wait (ReconnectWaitedK hook) st5)"

text \<open>\<open>this.subscriptions.forEach(sub => { this._subscribe(sub); })\<close>\<close>

definition replay :: "lib \<Rightarrow> conn \<Rightarrow> conn" where
  "replay L st = fold (u_subscribe L) [0..<length (subscriptions st)] st"

section \<open>Transport and timer events\<close>

text \<open>
  \<^verbatim>\<open>
  this.ws.onopen = () => {
    this.connected = true;
    this.isReadyHook();
    resolve();
  }
  \<close>
  for the transport of index \<open>i\<close>.
\<close>

definition ws_onopen :: "nat \<Rightarrow> conn \<Rightarrow> conn" where
  "ws_onopen i st =
     (let st1 = resolve (isReadyHook st) (st\<lparr>connected := True\<rparr>)
      in if i < length (sockets st1) then
           (case sockets st1 ! i of
              (url, ks) \<Rightarrow>
                st1\<lparr>sockets := (sockets st1)[i := (url, [])], microtasks := microtasks st1 @ ks\<rparr>)
         else st1)"

text \<open>
  \<^verbatim>\<open>
  this.ws.onerror = e => { console.log(new Date, '[FTX] WS ERROR', e.message); }
  \<close>
\<close>

definition ws_onerror :: "jsval \<Rightarrow> conn \<Rightarrow> conn" where
  "ws_onerror message st = log ''[FTX] WS ERROR'' [message] st"

text \<open>
  \<^verbatim>\<open>
  this.ws.onclose = async e => {
    console.log(new Date, '[FTX] CLOSED CON');
    this.authenticated = false;
    this.connected = false;
    clearInterval(this.heartbeat);
    this.reconnect();
  }
  \<close>
\<close>

definition ws_onclose :: "conn \<Rightarrow> conn" where
  "ws_onclose st =
     (let st1 = log ''[FTX] CLOSED CON'' [] st;
          st2 = st1\<lparr>authenticated := False, connected := False\<rparr>
      in reconnect (clearInterval (heartbeat st2) st2))"

text \<open>The timer of \<open>wait(500)\<close> number \<open>t\<close> fires.\<close>

definition timeout_fires :: "nat \<Rightarrow> conn \<Rightarrow> conn" where
  "timeout_fires t st =
     (if t < length (timeouts st) then
        (case timeouts st ! t of
           Some k \<Rightarrow> st\<lparr>timeouts := (timeouts st)[t := None], microtasks := microtasks st @ [k]\<rparr>
         | None \<Rightarrow> st)
      else st)"

text \<open>The interval timer \<open>h\<close> of \<open>setInterval(this.ping, 5 * 1000)\<close> fires, unless cleared.\<close>

definition interval_fires :: "lib \<Rightarrow> nat \<Rightarrow> nat \<Rightarrow> conn \<Rightarrow> conn" where
  "interval_fires L now h st =
     (if h < length (intervals st) \<and> intervals st ! h then ping L now st else st)"

text \<open>A frame arrives: \<open>this.ws.onmessage = this.handleWSMessage\<close>.\<close>

definition ws_onmessage :: "lib \<Rightarrow> nat \<Rightarrow> string \<Rightarrow> conn \<Rightarrow> conn" where
  "ws_onmessage L now dat st = snd (handleWSMessage L now dat st)"

section \<open>Running the microtask queue\<close>

text \<open>
  One continuation. The clock is read once for the whole run of the queue. A promise
  that nobody awaits is dropped with its outcome, as in the source.
\<close>

fun run_cont :: "lib \<Rightarrow> nat \<Rightarrow> cont \<Rightarrow> conn \<Rightarrow> conn" where
  "run_cont L now (SendK payload) st = ws_send (JSON_stringify L payload) st"
| "run_cont L now (SubscribeK i chan mkt) st = snd (subscribe_resume L i chan mkt st)"
| "run_cont L now AuthenticateK st = snd (authenticate_resume L now st)"
| "run_cont L now (ReconnectWaitedK hook) st =
     connect (Some (ReconnectConnectedK hook)) (log ''[FTX] RECONNECTING...'' [] st)"
| "run_cont L now (ReconnectConnectedK hook) st =
     (let st1 = resolve hook st;
          st2 = resolve (isReadyHook st1) st1
      in replay L st2)"
| "run_cont L now (ConnectK caller) st =
     (let st1 = (if truthy (key st) then snd (authenticate L now st) else st)
      in case caller of None \<Rightarrow> st1 | Some k \<Rightarrow> enqueue k st1)"

text \<open>
  The weight of the continuations that a run of the queue can still reach: those queued
  and those awaiting a promise of the store (transports and timers complete only in a
  later task). A \<open>SendK\<close> weighs nothing, since running it queues nothing.
\<close>

fun heavy :: "cont \<Rightarrow> nat" where
  "heavy (SendK payload) = 0"
| "heavy (SubscribeK i chan mkt) = 1"
| "heavy AuthenticateK = 1"
| "heavy (ReconnectWaitedK hook) = 3"
| "heavy (ReconnectConnectedK hook) = 1"
| "heavy (ConnectK caller) = Suc (case caller of None \<Rightarrow> 0 | Some k \<Rightarrow> heavy k)"

fun pweight :: "pstate \<Rightarrow> nat" where
  "pweight (PendingP ks) = sum_list (map heavy ks)"
| "pweight Fulfilled = 0"

definition weight :: "conn \<Rightarrow> nat" where
  "weight st = sum_list (map heavy (microtasks st)) + sum_list (map pweight (promises st))"

text \<open>No step of the model adds weight, and running a continuation removes its own.\<close>

lemma sum_list_pweight_update:
  "p < length ps \<Longrightarrow> sum_list (map pweight (ps[p := v])) + pweight (ps ! p) = sum_list (map pweight ps) + pweight v"
proof (induction ps arbitrary: p)
  case Nil then show ?case by simp
next
  case (Cons a ps)
  then show ?case by (cases p) auto
qed

lemma weight_new_promise [simp]: "weight (snd (new_promise st)) = weight st"
  by (simp add: new_promise_def weight_def)

lemma weight_log [simp]: "weight (log m a st) = weight st"
  by (simp add: log_def weight_def)

lemma weight_ws_send [simp]: "weight (ws_send f st) = weight st"
  by (simp add: ws_send_def weight_def)

lemma weight_enqueue [simp]: "weight (enqueue k st) = weight st + heavy k"
  by (simp add: enqueue_def weight_def)

lemma weight_resolve [simp]: "weight (resolve p st) = weight st"
proof (cases "p < length (promises st)")
  case False then show ?thesis by (simp add: resolve_def)
next
  case True
  show ?thesis
  proof (cases "promises st ! p")
    case Fulfilled
    with True show ?thesis by (simp add: resolve_def)
  next
    case (PendingP ks)
    with True sum_list_pweight_update[of p "promises st" Fulfilled]
    show ?thesis by (simp add: resolve_def weight_def)
  qed
qed

lemma weight_await: "weight (await v k st) \<le> weight st + heavy k"
proof (cases v)
  case None then show ?thesis by (simp add: await_def)
next
  case (Some p)
  show ?thesis
  proof (cases "p < length (promises st)")
    case False with Some show ?thesis by (simp add: await_def)
  next
    case True
    show ?thesis
    proof (cases "promises st ! p")
      case Fulfilled
      with True Some show ?thesis by (simp add: await_def)
    next
      case (PendingP ks)
      with True Some sum_list_pweight_update[of p "promises st" "PendingP (ks @ [k])"]
      show ?thesis by (simp add: await_def weight_def)
    qed
  qed
qed

lemma weight_sendMessage: "weight (snd (sendMessage L payload st)) \<le> weight st"
  using weight_await[of "afterReconnect st" "SendK payload" st]
  by (simp add: sendMessage_def)

lemma weight_subscriptions_update [simp]: "weight (st\<lparr>subscriptions := x\<rparr>) = weight st"
  by (simp add: weight_def)

lemma weight_u_subscribe: "weight (u_subscribe L i st) \<le> weight st"
proof (cases "i < length (subscriptions st)")
  case False then show ?thesis by (simp add: u_subscribe_def)
next
  case True
  obtain p st1 where np: "new_promise st = (p, st1)" by (cases "new_promise st")
  then have w1: "weight st1 = weight st" using weight_new_promise[of st] by simp
  from True np w1 show ?thesis
    using weight_sendMessage[of L _ "st1\<lparr>subscriptions := (subscriptions st1)[i := (subscriptions st1 ! i)\<lparr>doneHook := Some p, done' := Some p\<rparr>]\<rparr>"]
    by (simp add: u_subscribe_def Let_def)
qed

lemma weight_fold_u_subscribe: "weight (fold (u_subscribe L) is st) \<le> weight st"
proof (induction "is" arbitrary: st)
  case Nil then show ?case by simp
next
  case (Cons i "is")
  have "weight (fold (u_subscribe L) is (u_subscribe L i st)) \<le> weight (u_subscribe L i st)"
    by (rule Cons.IH)
  also have "\<dots> \<le> weight st" by (rule weight_u_subscribe)
  finally show ?case by simp
qed

lemma weight_replay: "weight (replay L st) \<le> weight st"
  by (simp add: replay_def weight_fold_u_subscribe)

lemma weight_subscribe_resume: "weight (snd (subscribe_resume L i chan mkt st)) \<le> weight st"
  using weight_u_subscribe[of L "length (subscriptions st)" "st\<lparr>subscriptions := subscriptions st @ [\<lparr>id' = i, channel = chan, market = mkt, doneHook = None, done' = None\<rparr>]\<rparr>"]
  by (simp add: subscribe_resume_def Let_def)

lemma weight_authenticated_update [simp]: "weight (st\<lparr>authenticated := x\<rparr>) = weight st"
  by (simp add: weight_def)

lemma weight_authenticate_resume: "weight (snd (authenticate_resume L now st)) \<le> weight st"
  by (cases "secret st") (simp_all add: authenticate_resume_def Let_def weight_sendMessage)

lemma weight_u_connect [simp]: "weight (snd (u_connect st)) = weight st"
  by (simp add: u_connect_def setInterval_def Let_def weight_def)

lemma weight_await_open [simp]: "weight (await_open i k st) = weight st"
  by (simp add: await_open_def weight_def split: prod.splits)

lemma weight_connect: "weight (connect caller st) \<le> weight st + heavy (ConnectK caller)"
proof (cases "u_connect st")
  case (Pair r st1)
  then have "weight st1 = weight st" using weight_u_connect[of st] by simp
  with Pair show ?thesis
    by (cases r) (simp_all add: connect_def)
qed

lemma weight_connect_disconnected: "\<not> connected st \<Longrightarrow> weight (connect caller st) = weight st"
proof -
  assume "\<not> connected st"
  then obtain i st1 where u: "u_connect st = (Some i, st1)"
    by (simp add: u_connect_def setInterval_def Let_def)
  then have "weight st1 = weight st" using weight_u_connect[of st] by simp
  with u show ?thesis by (simp add: connect_def)
qed

lemma weight_authenticate: "weight (snd (authenticate L now st)) \<le> weight st"
  by (simp add: authenticate_def weight_authenticate_resume weight_connect_disconnected)

lemma weight_run_cont:
  "weight (run_cont L now k st) + (if heavy k = 0 then 0 else 1) \<le> weight st + heavy k"
proof (cases k)
  case (SendK payload) then show ?thesis by simp
next
  case (SubscribeK i chan mkt)
  then show ?thesis using weight_subscribe_resume[of L i chan mkt st] by simp
next
  case AuthenticateK
  then show ?thesis using weight_authenticate_resume[of L now st] by simp
next
  case (ReconnectWaitedK hook)
  then show ?thesis
    using weight_connect[of "Some (ReconnectConnectedK hook)" "log ''[FTX] RECONNECTING...'' [] st"]
    by simp
next
  case (ReconnectConnectedK hook)
  then show ?thesis
    using weight_replay[of L "resolve (isReadyHook (resolve hook st)) (resolve hook st)"]
    by (simp add: Let_def)
next
  case (ConnectK caller)
  have a: "weight (if truthy (key st) then snd (authenticate L now st) else st) \<le> weight st"
    by (simp add: weight_authenticate)
  from ConnectK a show ?thesis
    by (cases caller) (simp_all add: Let_def)
qed

lemma microtasks_run_SendK: "microtasks (run_cont L now (SendK payload) st) = microtasks st"
  by (simp add: ws_send_def)

lemma weight_pop: "microtasks st = k # ks \<Longrightarrow> weight st = heavy k + weight (st\<lparr>microtasks := ks\<rparr>)"
  by (simp add: weight_def)

text \<open>
  A task ends when the microtask queue is empty: the continuations are run first in,
  first out, each one to completion.
\<close>

function drain :: "lib \<Rightarrow> nat \<Rightarrow> conn \<Rightarrow> conn" where
  "drain L now st =
     (case microtasks st of
        [] \<Rightarrow> st
      | k # ks \<Rightarrow> drain L now (run_cont L now k (st\<lparr>microtasks := ks\<rparr>)))"
  by pat_completeness auto
termination
proof (relation "(\<lambda>(L, now, st). weight st) <*mlex*> measure (\<lambda>(L, now, st). length (microtasks st))")
  show "wf ((\<lambda>(L, now, st). weight st) <*mlex*> measure (\<lambda>(L, now, st). length (microtasks st)))"
    by (simp add: wf_mlex)
next
  fix L :: lib and now :: nat and st :: conn and k ks
  assume m: "microtasks st = k # ks"
  let ?st' = "st\<lparr>microtasks := ks\<rparr>"
  have w: "weight (run_cont L now k ?st') + (if heavy k = 0 then 0 else 1) \<le> weight st"
    using weight_run_cont[of L now k ?st'] weight_pop[OF m] by simp
  show "((L, now, run_cont L now k ?st'), (L, now, st))
        \<in> (\<lambda>(L, now, st). weight st) <*mlex*> measure (\<lambda>(L, now, st). length (microtasks st))"
  proof (cases "heavy k = 0")
    case False
    with w show ?thesis by (intro mlex_less) simp
  next
    case True
    then obtain payload where k: "k = SendK payload" by (cases k) auto
    have "length (microtasks (run_cont L now k ?st')) < length (microtasks st)"
      using m k by (simp add: ws_send_def)
    with w True show ?thesis by (intro mlex_leq) simp_all
  qed
qed

text \<open>A task: a call or an event handler \<open>f\<close>, then the microtask queue.\<close>

definition task :: "lib \<Rightarrow> nat \<Rightarrow> (conn \<Rightarrow> conn) \<Rightarrow> conn \<Rightarrow> conn" where
  "task L now f st = drain L now (f st)"

section \<open>Callers\<close>

text \<open>An argument that is a string or absent.\<close>

fun opt_str :: "string option \<Rightarrow> jsval" where
  "opt_str None = Undefined"
| "opt_str (Some s) = Str s"

text \<open>
  Calls of \<open>subscribe\<close> one after the other, as in \<open>sample.js\<close>, each run up to its
  first suspension; and a call with a string channel and a string or absent market.
\<close>

definition subscribe_all :: "lib \<Rightarrow> (jsval \<times> jsval) list \<Rightarrow> conn \<Rightarrow> conn" where
  "subscribe_all L calls st = fold (\<lambda>(chan, mkt) s. snd (subscribe L chan mkt s)) calls st"

definition typed_call :: "string \<times> string option \<Rightarrow> jsval \<times> jsval" where
  "typed_call call = (Str (fst call), opt_str (snd call))"

definition call_key :: "string \<times> string option \<Rightarrow> jsval" where
  "call_key call = toId (opt_str (snd call)) (Str (fst call))"

text \<open>Calls of \<open>sendMessage\<close>, each a task of its own.\<close>

definition send_all :: "lib \<Rightarrow> nat \<Rightarrow> jsval list \<Rightarrow> conn \<Rightarrow> conn" where
  "send_all L now payloads st =
     fold (\<lambda>payload. task L now (\<lambda>s. snd (sendMessage L payload s))) payloads st"

text \<open>
  The login frame that \<open>connect\<close> has \<open>authenticate\<close> send on a connected connection:
  one when a key is configured and the secret is a string.
\<close>

definition login_frames :: "lib \<Rightarrow> nat \<Rightarrow> conn \<Rightarrow> string list" where
  "login_frames L now st =
     (if truthy (key st) then
        (case secret st of
           Str s \<Rightarrow> [JSON_stringify L (login_message L now s (key st) (subaccount st))]
         | _ \<Rightarrow> [])
      else [])"

text \<open>
  What happens after a replay: a frame is handled, or the subscriptions are replayed
  once more after another reconnection.
\<close>

datatype step = Frame nat string | Replay

fun run_step :: "lib \<Rightarrow> step \<Rightarrow> conn \<Rightarrow> conn" where
  "run_step L (Frame now dat) st = ws_onmessage L now dat st"
| "run_step L Replay st = replay L st"

definition run_steps :: "lib \<Rightarrow> step list \<Rightarrow> conn \<Rightarrow> conn" where
  "run_steps L steps st = fold (run_step L) steps st"

definition frames :: "(nat \<times> string) list \<Rightarrow> step list" where
  "frames fs = map (\<lambda>(now, dat). Frame now dat) fs"

text \<open>Every resolver held by a subscription is that of promise \<open>n\<close> or of a later one.\<close>

definition hooks_from :: "nat \<Rightarrow> conn \<Rightarrow> bool" where
  "hooks_from n st \<longleftrightarrow> (\<forall>sub \<in> set (subscriptions st). \<forall>p. doneHook sub = Some p \<longrightarrow> n \<le> p)"

section \<open>An example environment\<close>

text \<open>
  The theorems below hold for every library \<open>L\<close>. Their instances are computed in
  this one: a serialiser that writes a value as \<open>JSON.stringify\<close> does when no string
  needs escaping, a decoder that knows the frames of the examples and rejects any
  other text, and a keyed digest that only records its arguments.
\<close>

definition quote :: "string \<Rightarrow> string" where
  "quote s = CHR 0x22 # s @ [CHR 0x22]"

fun stringify :: "jsval \<Rightarrow> string" where
  "stringify Undefined = ''undefined''"
| "stringify Null = ''null''"
| "stringify (Bool b) = (if b then ''true'' else ''false'')"
| "stringify (Num n) = show_int n"
| "stringify (Str s) = quote s"
| "stringify (Arr xs) =
     ''['' @ join '','' (map (\<lambda>x. if x = Undefined then ''null'' else stringify x) xs) @ '']''"
| "stringify (Obj kvs) =
     ''{'' @ join '','' (map (\<lambda>(k, v). quote k @ '':'' @ stringify v)
                            (filter (\<lambda>(k, v). v \<noteq> Undefined) kvs)) @ ''}''"

definition example_frames :: "(string \<times> jsval) list" where
  \<open>example_frames =
     [(PONG, Obj [(''type'', Str ''pong'')]),
      (''{"type":"update","market":"BTC-PERP","channel":"ticker","data":{"bid":1}}'',
       Obj [(''type'', Str ''update''), (''market'', Str ''BTC-PERP''),
            (''channel'', Str ''ticker''), (''data'', Obj [(''bid'', Num 1)])]),
      (''{"type":"update","market":"","channel":"ticker","data":{"bid":1}}'',
       Obj [(''type'', Str ''update''), (''market'', Str []),
            (''channel'', Str ''ticker''), (''data'', Obj [(''bid'', Num 1)])]),
      (''{"type":"update","channel":"error","data":{"bid":1}}'',
       Obj [(''type'', Str ''update''), (''channel'', Str ''error''),
            (''data'', Obj [(''bid'', Num 1)])]),
      (''{"type":"subscribed","market":"BTC-PERP","channel":"ticker"}'',
       Obj [(''type'', Str ''subscribed''), (''market'', Str ''BTC-PERP''),
            (''channel'', Str ''ticker'')])]\<close>

definition example_lib :: lib where
  "example_lib =
     \<lparr>JSON_parse = map_of example_frames,
      JSON_stringify = stringify,
      hmac_sha256_hex = (\<lambda>k msg. ''hmac('' @ k @ '','' @ msg @ '')'')\<rparr>"

text \<open>\<open>new FTXWs()\<close> and \<open>new FTXWs({key: 'x', secret: 'y', subaccount: 'z'})\<close>.\<close>

definition public_conf :: conf where
  "public_conf =
     \<lparr>conf_key = Undefined, conf_secret = Undefined, conf_subaccount = Undefined,
      conf_endpoint = Undefined\<rparr>"

definition private_conf :: conf where
  "private_conf =
     \<lparr>conf_key = Str ''x'', conf_secret = Str ''y'', conf_subaccount = Str ''z'',
      conf_endpoint = Undefined\<rparr>"

text \<open>
  The connection after \<open>connect()\<close> at time 0 (\<open>connecting\<close>), and after the open event
  of its transport at time 1000 (\<open>opened\<close>).
\<close>

definition connecting :: "conf \<Rightarrow> conn" where
  "connecting c = task example_lib 0 (connect None) (Connection c)"

definition opened :: "conf \<Rightarrow> conn" where
  "opened c = task example_lib 1000 (ws_onopen 0) (connecting c)"

text \<open>Then the first tick of the heartbeat at time 2000, and a pong at time 4500.\<close>

definition pinged :: conn where
  "pinged = task example_lib 2000 (interval_fires example_lib 2000 0) (opened public_conf)"

definition ponged_late :: conn where
  "ponged_late = task example_lib 4500 (ws_onmessage example_lib 4500 PONG) pinged"

text \<open>
  The connection whose transport has not opened when the heartbeat ticks first, at time
  5000.
\<close>

definition ticked_early :: conn where
  "ticked_early =
     task example_lib 5000 (interval_fires example_lib 5000 0) (connecting public_conf)"

text \<open>Three calls of \<open>subscribe\<close>, the third one repeating the first.\<close>

definition sample_calls :: "(string \<times> string option) list" where
  "sample_calls = [(''ticker'', Some ''BTC-PERP''), (''fills'', None), (''ticker'', Some ''BTC-PERP'')]"

text \<open>
  The connection of the examples after the three calls of \<open>sample_calls\<close>; after its
  transport has closed at time 10000, the timer of \<open>reconnect\<close> has fired and the new
  transport has opened at time 11000; and after the acknowledgment of the first
  subscription has then arrived.
\<close>

definition subscribed :: conn where
  "subscribed = subscribe_all example_lib (map typed_call sample_calls) (opened public_conf)"

definition reopened :: conn where
  "reopened =
     task example_lib 11000 (ws_onopen 1)
       (task example_lib 10500 (timeout_fires 0)
          (task example_lib 10000 ws_onclose subscribed))"

definition acknowledged :: conn where
  \<open>acknowledged =
     task example_lib 11100
       (ws_onmessage example_lib 11100 ''{"type":"subscribed","market":"BTC-PERP","channel":"ticker"}'')
       reopened\<close>

section \<open>Evaluating the examples\<close>

declare drain.simps [simp del]

lemma drain_Nil: "microtasks st = [] \<Longrightarrow> drain L now st = st"
  by (simp add: drain.simps)

lemma drain_Cons:
  "microtasks st = k # ks \<Longrightarrow>
   drain L now st = drain L now (run_cont L now k (st\<lparr>microtasks := ks\<rparr>))"
  by (simp add: drain.simps)

lemmas run_defs =
  task_def drain_Nil drain_Cons connect_def u_connect_def setInterval_def await_open_def
  ws_onopen_def resolve_def enqueue_def new_promise_def await_def log_def ws_send_def emit_def
  sendMessage_def subscribe_def subscribe_resume_def u_subscribe_def subscribe_message_def
  authenticate_def authenticate_resume_def login_message_def terminate_def ping_def
  interval_fires_def ws_onmessage_def handleWSMessage_def reconnect_def await_wait_def
  replay_def ws_onclose_def clearInterval_def timeout_fires_def toId_def Let_def

lemma connecting_public:
  "connecting public_conf =
     \<lparr>key = Undefined, secret = Undefined, subaccount = Undefined,
      WSendpoint = Str ''ftx.com/ws/'', connected = False, isReadyHook = 0, isReady = 0,
      authenticated = False, reconnecting = False, afterReconnect = None, subscriptions = [],
      lastMessageAt = 0, pingAt = Unset, pongAt = Unset, heartbeat = Some 0,
      listeners = [], promises = [PendingP []], microtasks = [],
      sockets = [(''wss://ftx.com/ws/'', [ConnectK None])], timeouts = [], intervals = [True],
      wire = [], terminations = 0, emitted = [], logs = []\<rparr>"
  by (simp add: connecting_def public_conf_def Connection_def DEFAULT_ENDPOINT_def run_defs)

lemma opened_public:
  "opened public_conf =
     \<lparr>key = Undefined, secret = Undefined, subaccount = Undefined,
      WSendpoint = Str ''ftx.com/ws/'', connected = True, isReadyHook = 0, isReady = 0,
      authenticated = False, reconnecting = False, afterReconnect = None, subscriptions = [],
      lastMessageAt = 0, pingAt = Unset, pongAt = Unset, heartbeat = Some 0,
      listeners = [], promises = [Fulfilled], microtasks = [],
      sockets = [(''wss://ftx.com/ws/'', [])], timeouts = [], intervals = [True],
      wire = [], terminations = 0, emitted = [], logs = []\<rparr>"
  by (simp add: opened_def connecting_public run_defs)

lemma pinged_eq:
  \<open>pinged = (opened public_conf)\<lparr>pingAt := At 2000, wire := [''{"op":"ping"}'']\<rparr>\<close>
  by (simp add: pinged_def opened_public run_defs example_lib_def quote_def)

lemma ponged_late_eq:
  "ponged_late = pinged\<lparr>lastMessageAt := 4500, pongAt := At 4500\<rparr>"
  by (simp add: ponged_late_def pinged_eq opened_public run_defs)

lemma opened_private:
  \<open>opened private_conf =
     \<lparr>key = Str ''x'', secret = Str ''y'', subaccount = Str ''z'',
      WSendpoint = Str ''ftx.com/ws/'', connected = True, isReadyHook = 0, isReady = 0,
      authenticated = True, reconnecting = False, afterReconnect = None, subscriptions = [],
      lastMessageAt = 0, pingAt = Unset, pongAt = Unset, heartbeat = Some 0,
      listeners = [], promises = [Fulfilled], microtasks = [],
      sockets = [(''wss://ftx.com/ws/'', [])], timeouts = [], intervals = [True],
      wire = [''{"op":"login","args":{"key":"x","sign":"hmac(y,1000websocket_login)","time":1000,"subaccount":"z"}}''],
      terminations = 0, emitted = [], logs = []\<rparr>\<close>
  by (simp add: opened_def connecting_def private_conf_def Connection_def DEFAULT_ENDPOINT_def
      run_defs example_lib_def quote_def show_int_def show_nat.simps digit_def)

section \<open>Sending while disconnected\<close>

text \<open>
  Claim C4. A call of \<open>sendMessage\<close> or of \<open>subscribe\<close> in a state that is neither
  connected nor reconnecting fails with the error \<open>Not connected.\<close> in the call itself,
  before any suspension; it hands no frame to the transport and leaves the whole state,
  with the connected, authenticated and reconnecting flags and the subscription list,
  as it was.
\<close>

theorem not_connected_fails:
  assumes "\<not> connected st" and "\<not> reconnecting st"
  shows "sendMessage L payload st = (Failed NotConnected, st)
       \<and> subscribe L chan mkt st = (Failed NotConnected, st)"
  using assms by (simp add: sendMessage_def subscribe_def)

theorem not_connected_fails_witness:
  "\<not> connected (Connection public_conf) \<and> \<not> reconnecting (Connection public_conf)
   \<and> sendMessage example_lib (Obj [(''op'', Str ''ping'')]) (Connection public_conf)
       = (Failed NotConnected, Connection public_conf)
   \<and> subscribe example_lib (Str ''ticker'') (Str ''BTC-PERP'') (Connection public_conf)
       = (Failed NotConnected, Connection public_conf)"
  using not_connected_fails[of "Connection public_conf" example_lib
      "Obj [(''op'', Str ''ping'')]" "Str ''ticker''" "Str ''BTC-PERP''"]
  by (simp add: Connection_def)

section \<open>Pong frames\<close>

text \<open>
  Claim C8. A frame whose text is the pong literal and which arrives less than 5000 ms
  after the recorded ping timestamp is consumed: the handler records the arrival time
  as \<open>lastMessageAt\<close> and \<open>pongAt\<close> and returns. Nothing else changes, whatever the
  decoder is: the frame is not parsed, no promise of a subscription is resolved and no
  event is emitted.
\<close>

theorem pong_consumed:
  assumes "pingAt st = At p" and "int now - int p < 5000"
  shows "handleWSMessage L now PONG st = (Done (), st\<lparr>lastMessageAt := now, pongAt := At now\<rparr>)"
  using assms by (simp add: handleWSMessage_def Let_def)

theorem pong_consumed_witness:
  "pingAt pinged = At 2000 \<and> int 4500 - int 2000 < 5000
   \<and> handleWSMessage example_lib 4500 PONG pinged
       = (Done (), pinged\<lparr>lastMessageAt := 4500, pongAt := At 4500\<rparr>)"
  using pong_consumed[of pinged 2000 4500 example_lib] by (simp add: pinged_eq)

section \<open>Malformed frames\<close>

text \<open>
  Claim C1 says that a frame whose text is not valid JSON is logged and dropped, and that
  the handler returns without raising. The handler does catch the SyntaxError, but it
  goes on to read \<open>payload.type\<close> with \<open>payload\<close> still \<open>undefined\<close>: a TypeError leaves
  \<open>handleWSMessage\<close>, for every such frame, and the line logged carries \<open>undefined\<close>
  in place of the frame. (That the pong literal is valid JSON is a fact of the decoder.)
\<close>

theorem malformed_frame_throws:
  assumes "JSON_parse L dat = None" and "JSON_parse L PONG \<noteq> None"
  shows "handleWSMessage L now dat st
         = (Failed TypeError, log ''ftx send bad json'' [Undefined] (st\<lparr>lastMessageAt := now\<rparr>))"
proof -
  from assms have "dat \<noteq> PONG" by auto
  with assms(1) show ?thesis by (simp add: handleWSMessage_def Let_def)
qed

theorem malformed_frame_throws_witness:
  "JSON_parse example_lib ''oops'' = None \<and> JSON_parse example_lib PONG \<noteq> None
   \<and> handleWSMessage example_lib 3000 ''oops'' (opened public_conf)
       = (Failed TypeError,
          (opened public_conf)\<lparr>lastMessageAt := 3000, logs := [(''ftx send bad json'', [Undefined])]\<rparr>)"
  using malformed_frame_throws[of example_lib "''oops''" 3000 "opened public_conf"]
  by (simp add: example_lib_def example_frames_def PONG_def opened_public log_def)

section \<open>The login frame\<close>

text \<open>
  Claim C9. On a connected connection whose secret is the string \<open>s\<close>, \<open>authenticate\<close>
  at clock reading \<open>t\<close> signs the decimal digits of \<open>t\<close> followed by \<open>websocket_login\<close>
  with HMAC-SHA256 under \<open>s\<close>, hands to the transport exactly one frame, the
  serialisation of \<open>{op: 'login', args: {key, sign, time: t, subaccount}}\<close>, marks the
  connection authenticated and returns, awaiting no response.
\<close>

theorem authenticate_login:
  assumes "connected st" and "secret st = Str s"
  shows "authenticate L t st =
           (Done (),
            st\<lparr>wire := wire st @
                   [JSON_stringify L
                      (Obj [(''op'', Str ''login''),
                            (''args'',
                             Obj [(''key'', key st),
                                  (''sign'', Str (hmac_sha256_hex L s (show_nat t @ ''websocket_login''))),
                                  (''time'', Num (int t)),
                                  (''subaccount'', subaccount st)])])],
               authenticated := True\<rparr>)"
  using assms
  by (simp add: authenticate_def authenticate_resume_def sendMessage_def ws_send_def login_message_def)

theorem authenticate_login_witness:
  \<open>connected (opened private_conf) \<and> secret (opened private_conf) = Str ''y''
   \<and> authenticate example_lib 5000 (opened private_conf) =
       (Done (),
        (opened private_conf)\<lparr>wire := wire (opened private_conf) @
          [''{"op":"login","args":{"key":"x","sign":"hmac(y,5000websocket_login)","time":5000,"subaccount":"z"}}'']\<rparr>)\<close>
  using authenticate_login[of "opened private_conf" "''y''" example_lib 5000]
  by (simp add: opened_private example_lib_def quote_def show_int_def show_nat.simps digit_def)

section \<open>Data frames\<close>

text \<open>
  Claim C7, amended. Take a frame that decodes to an object whose \<open>type\<close> is \<open>update\<close>
  or \<open>partial\<close>, whose \<open>channel\<close> is the string \<open>C\<close> and whose \<open>market\<close> is absent or a
  string. Its topic key is \<open>C\<close> when the market is absent or the empty string, and the
  market, \<open>::\<close> and \<open>C\<close> otherwise. Unless that key is \<open>error\<close> and no listener is
  registered for \<open>error\<close>, the handler emits exactly one event, on that key, carrying
  the frame's \<open>data\<close> field, and changes nothing else but \<open>lastMessageAt\<close>. In the
  excepted case \<open>emit\<close> throws: nothing is emitted and the error leaves the handler.
  (That the pong literal decodes to an object of type \<open>pong\<close> is a fact of the decoder.)
\<close>

theorem update_frame_emits:
  assumes "JSON_parse L dat = Some payload"
      and "JSON_parse L PONG = Some (Obj [(''type'', Str ''pong'')])"
      and "get_prop payload ''type'' = Str ''update'' \<or> get_prop payload ''type'' = Str ''partial''"
      and "get_prop payload ''market'' = opt_str M"
      and "get_prop payload ''channel'' = Str C"
  shows "handleWSMessage L now dat st =
           (let k = (case M of None \<Rightarrow> C | Some m \<Rightarrow> if m = [] then C else m @ ''::'' @ C)
            in if k = ''error'' \<and> ''error'' \<notin> set (map toString (listeners st))
               then (Failed UnhandledError, st\<lparr>lastMessageAt := now\<rparr>)
               else (Done (),
                     st\<lparr>lastMessageAt := now,
                        emitted := emitted st @ [(Str k, get_prop payload ''data'')]\<rparr>))"
proof -
  from assms(1-3) have ne: "dat \<noteq> PONG" by auto
  from assms(3) have nn: "\<not> nullish payload" by (cases payload) auto
  have k: "toId (opt_str M) (Str C)
           = Str (case M of None \<Rightarrow> C | Some m \<Rightarrow> if m = [] then C else m @ ''::'' @ C)"
    by (cases M) (simp_all add: toId_def)
  from assms(3) show ?thesis
    using ne nn assms(1,4,5) k
    by (auto simp: handleWSMessage_def Let_def emit_def)
qed

theorem update_frame_emits_witness:
  \<open>JSON_parse example_lib
      ''{"type":"update","market":"BTC-PERP","channel":"ticker","data":{"bid":1}}''
     = Some (Obj [(''type'', Str ''update''), (''market'', Str ''BTC-PERP''),
                  (''channel'', Str ''ticker''), (''data'', Obj [(''bid'', Num 1)])])
   \<and> JSON_parse example_lib PONG = Some (Obj [(''type'', Str ''pong'')])
   \<and> handleWSMessage example_lib 3000
        ''{"type":"update","market":"BTC-PERP","channel":"ticker","data":{"bid":1}}''
        (opened public_conf) =
      (Done (),
       (opened public_conf)\<lparr>lastMessageAt := 3000,
          emitted := [(Str ''BTC-PERP::ticker'', Obj [(''bid'', Num 1)])]\<rparr>)
   \<and> handleWSMessage example_lib 3000
        ''{"type":"update","channel":"error","data":{"bid":1}}''
        (on (Str ''error'') (opened public_conf)) =
      (Done (),
       (opened public_conf)\<lparr>lastMessageAt := 3000, listeners := [Str ''error''],
          emitted := [(Str ''error'', Obj [(''bid'', Num 1)])]\<rparr>)\<close>
  using update_frame_emits[of example_lib
      \<open>''{"type":"update","market":"BTC-PERP","channel":"ticker","data":{"bid":1}}''\<close>
      "Obj [(''type'', Str ''update''), (''market'', Str ''BTC-PERP''),
            (''channel'', Str ''ticker''), (''data'', Obj [(''bid'', Num 1)])]"
      "Some ''BTC-PERP''" "''ticker''" 3000 "opened public_conf"]
    update_frame_emits[of example_lib
      \<open>''{"type":"update","channel":"error","data":{"bid":1}}''\<close>
      "Obj [(''type'', Str ''update''), (''channel'', Str ''error''),
            (''data'', Obj [(''bid'', Num 1)])]"
      None "''error''" 3000 "on (Str ''error'') (opened public_conf)"]
  by (simp add: example_lib_def example_frames_def PONG_def opened_public on_def)

text \<open>
  As first stated, the claim gives the name \<open>::ticker\<close> to a frame whose market is
  present and empty, where the event is emitted on \<open>ticker\<close>; and it has an event
  emitted for a frame of the market-less channel \<open>error\<close> on a connection without a
  listener for \<open>error\<close>, where the handler throws.
\<close>

theorem update_frame_counterexample:
  \<open>JSON_parse example_lib ''{"type":"update","market":"","channel":"ticker","data":{"bid":1}}''
     = Some (Obj [(''type'', Str ''update''), (''market'', Str []),
                  (''channel'', Str ''ticker''), (''data'', Obj [(''bid'', Num 1)])])
   \<and> handleWSMessage example_lib 3000
         ''{"type":"update","market":"","channel":"ticker","data":{"bid":1}}''
         (opened public_conf)
       = (Done (),
          (opened public_conf)\<lparr>lastMessageAt := 3000,
             emitted := [(Str ''ticker'', Obj [(''bid'', Num 1)])]\<rparr>)
   \<and> Str ''ticker'' \<noteq> Str ([] @ ''::'' @ ''ticker'')
   \<and> JSON_parse example_lib ''{"type":"update","channel":"error","data":{"bid":1}}''
     = Some (Obj [(''type'', Str ''update''), (''channel'', Str ''error''),
                  (''data'', Obj [(''bid'', Num 1)])])
   \<and> listeners (opened public_conf) = []
   \<and> handleWSMessage example_lib 3000
         ''{"type":"update","channel":"error","data":{"bid":1}}'' (opened public_conf)
       = (Failed UnhandledError, (opened public_conf)\<lparr>lastMessageAt := 3000\<rparr>)\<close>
  by (simp add: example_lib_def example_frames_def PONG_def opened_public run_defs)

section \<open>Colliding topic keys\<close>

text \<open>
  Claim C10, amended. The topic key is not injective: for every non-empty market \<open>m\<close>
  and every channel \<open>c\<close>, the request for channel \<open>c\<close> of market \<open>m\<close> and the request,
  without a market, for the channel named \<open>m::c\<close> are different requests with the same
  key, hence the same entry of the registry and the same event name.
\<close>

theorem toId_collision:
  assumes "m \<noteq> []"
  shows "toId (Str m) (Str c) = toId Undefined (Str (m @ ''::'' @ c))
       \<and> (Str m, Str c) \<noteq> (Undefined, Str (m @ ''::'' @ c))"
  using assms by (simp add: toId_def)

theorem toId_collision_witness:
  "''BTC-PERP'' \<noteq> []
   \<and> toId (Str ''BTC-PERP'') (Str ''ticker'') = toId Undefined (Str ''BTC-PERP::ticker'')
   \<and> (Str ''BTC-PERP'', Str ''ticker'') \<noteq> (Undefined, Str ''BTC-PERP::ticker'')"
  using toId_collision[of "''BTC-PERP''" "''ticker''"] by simp

text \<open>
  For the empty market the two keys differ: \<open>toId('', 'ticker')\<close> is \<open>ticker\<close>, and
  the key of the channel named \<open>::ticker\<close> is \<open>::ticker\<close>.
\<close>

theorem toId_collision_counterexample:
  "toId (Str []) (Str ''ticker'') \<noteq> toId Undefined (Str ([] @ ''::'' @ ''ticker''))"
  by (simp add: toId_def)

section \<open>The liveness tick\<close>

lemma ping_stale_iff:
  "(truthy (stamp_val (pingAt st))
      \<and> num_less (toNumber (pingAt st)) (toNumber (pongAt st))
      \<and> num_less (Some STALE_TIMEOUT) (num_minus (toNumber (pongAt st)) (toNumber (pingAt st))))
   \<longleftrightarrow> (\<exists>p q. pingAt st = At p \<and> 0 < p \<and> pongAt st = At q \<and> p < q \<and> 2000 < int q - int p)"
  by (cases "pingAt st"; cases "pongAt st") (auto simp: STALE_TIMEOUT_def)

lemma ping_stale:
  assumes "pingAt st = At p" "0 < p" "pongAt st = At q" "p < q" "2000 < int q - int p"
  shows "ping L now st =
           snd (terminate (log ''[FTX] did NOT receive pong in time, reconnecting''
             [Obj [(''pingAt'', Num (int p)), (''pongAt'', Num (int q))]] st))"
  using assms by (simp add: ping_def STALE_TIMEOUT_def)

lemma ping_fresh:
  assumes "\<not> (\<exists>p q. pingAt st = At p \<and> 0 < p \<and> pongAt st = At q \<and> p < q \<and> 2000 < int q - int p)"
  shows "ping L now st = snd (sendMessage L (Obj [(''op'', Str ''ping'')]) (st\<lparr>pingAt := At now\<rparr>))"
  using assms ping_stale_iff[of st] unfolding ping_def by (simp only: if_False)

lemma drain_send_fields:
  assumes "microtasks s = [SendK payload]"
  shows "terminations (drain L now s) = terminations s"
    and "pingAt (drain L now s) = pingAt s"
  using assms by (simp_all add: drain_Cons drain_Nil ws_send_def)

text \<open>
  Claim C6, amended. Take a tick of an active heartbeat timer on a connection at rest
  (the timer is armed by \<open>_connect\<close>, which has then made a transport), with the
  microtasks it leaves. The tick forces termination if and only if the ping timestamp
  is a clock reading other than 0, the pong timestamp is a later clock reading, and
  the two are more than 2000 ms apart. On every other tick, in particular when no pong
  has arrived since the last ping, nothing is terminated and the clock is recorded as
  the new ping timestamp; and when the connection is connected, the ping frame is sent
  at that tick.
\<close>

theorem ping_tick:
  assumes "h < length (intervals st)" and "intervals st ! h"
      and "microtasks st = []" and "sockets st \<noteq> []"
  shows "(terminations (task L now (interval_fires L now h) st) = Suc (terminations st)
            \<longleftrightarrow> (\<exists>p q. pingAt st = At p \<and> 0 < p \<and> pongAt st = At q \<and> p < q
                        \<and> 2000 < int q - int p))
       \<and> ((\<nexists>p q. pingAt st = At p \<and> 0 < p \<and> pongAt st = At q \<and> p < q \<and> 2000 < int q - int p) \<longrightarrow>
            terminations (task L now (interval_fires L now h) st) = terminations st
            \<and> pingAt (task L now (interval_fires L now h) st) = At now
            \<and> (connected st \<longrightarrow>
                 wire (task L now (interval_fires L now h) st)
                   = wire st @ [JSON_stringify L (Obj [(''op'', Str ''ping'')])]))"
proof (cases "\<exists>p q. pingAt st = At p \<and> 0 < p \<and> pongAt st = At q \<and> p < q \<and> 2000 < int q - int p")
  case True
  then obtain p q where "pingAt st = At p" "0 < p" "pongAt st = At q" "p < q" "2000 < int q - int p"
    by blast
  then have "ping L now st =
           snd (terminate (log ''[FTX] did NOT receive pong in time, reconnecting''
             [Obj [(''pingAt'', Num (int p)), (''pongAt'', Num (int q))]] st))"
    by (rule ping_stale)
  then have "terminations (task L now (interval_fires L now h) st) = Suc (terminations st)"
    using assms by (simp add: task_def interval_fires_def terminate_def log_def Let_def drain_Nil)
  with True show ?thesis by simp
next
  case False
  let ?st1 = "st\<lparr>pingAt := At now\<rparr>"
  let ?k = "SendK (Obj [(''op'', Str ''ping'')])"
  from False have p: "ping L now st = snd (sendMessage L (Obj [(''op'', Str ''ping'')]) ?st1)"
    by (rule ping_fresh)
  have tick: "task L now (interval_fires L now h) st = drain L now (ping L now st)"
    using assms by (simp add: task_def interval_fires_def)
  have con: "connected st \<Longrightarrow> task L now (interval_fires L now h) st
               = ?st1\<lparr>wire := wire st @ [JSON_stringify L (Obj [(''op'', Str ''ping'')])]\<rparr>"
    using assms by (simp add: tick p sendMessage_def ws_send_def drain_Nil)
  have t: "terminations (task L now (interval_fires L now h) st) = terminations st
         \<and> pingAt (task L now (interval_fires L now h) st) = At now"
  proof (cases "connected st")
    case True
    then show ?thesis by (simp add: con)
  next
    case nc: False
    show ?thesis
    proof (cases "reconnecting st")
      case False
      with nc assms show ?thesis by (simp add: tick p sendMessage_def drain_Nil)
    next
      case True
      have "microtasks (await (afterReconnect st) ?k ?st1) = []
            \<or> microtasks (await (afterReconnect st) ?k ?st1) = [?k]"
        using assms by (simp add: await_def enqueue_def split: option.splits pstate.splits)
      moreover have "terminations (await (afterReconnect st) ?k ?st1) = terminations st"
        "pingAt (await (afterReconnect st) ?k ?st1) = At now"
        by (simp_all add: await_def enqueue_def split: option.splits pstate.splits)
      ultimately show ?thesis
        using nc True drain_send_fields[of "await (afterReconnect st) ?k ?st1"]
        by (auto simp: tick p sendMessage_def drain_Nil)
    qed
  qed
  with False con show ?thesis by simp
qed

lemma ticked_early_eq:
  "ticked_early = (connecting public_conf)\<lparr>pingAt := At 5000\<rparr>"
  by (simp add: ticked_early_def connecting_public run_defs)

theorem ping_tick_witness:
  \<open>0 < length (intervals pinged) \<and> intervals pinged ! 0 \<and> microtasks pinged = []
   \<and> sockets pinged \<noteq> []
   \<and> 0 < length (intervals ponged_late) \<and> intervals ponged_late ! 0
   \<and> microtasks ponged_late = [] \<and> sockets ponged_late \<noteq> []
   \<and> terminations (task example_lib 7000 (interval_fires example_lib 7000 0) ponged_late)
       = Suc (terminations ponged_late)
   \<and> terminations (task example_lib 7000 (interval_fires example_lib 7000 0) pinged)
       = terminations pinged
   \<and> pingAt (task example_lib 7000 (interval_fires example_lib 7000 0) pinged) = At 7000
   \<and> wire (task example_lib 7000 (interval_fires example_lib 7000 0) pinged)
       = [''{"op":"ping"}'', ''{"op":"ping"}'']\<close>
proof -
  have a: "0 < length (intervals pinged)" "intervals pinged ! 0" "microtasks pinged = []"
      "sockets pinged \<noteq> []"
    by (simp_all add: pinged_eq opened_public)
  have b: "0 < length (intervals ponged_late)" "intervals ponged_late ! 0"
      "microtasks ponged_late = []" "sockets ponged_late \<noteq> []"
    by (simp_all add: ponged_late_eq pinged_eq opened_public)
  from ping_tick[OF b, of example_lib 7000] ping_tick[OF a, of example_lib 7000] a b
  show ?thesis
    by (simp add: ponged_late_eq pinged_eq opened_public example_lib_def quote_def)
qed

text \<open>
  As first stated, the claim has a ping frame sent on every tick that finds no pong
  since the last ping. The interval timer starts with \<open>_connect\<close>, before the
  transport is open. At the second tick in that state the last ping is the one recorded
  at the first tick and no pong has arrived: nothing is terminated, the ping timestamp
  is recorded, and no frame is sent.
\<close>

theorem ping_tick_counterexample:
  "pingAt ticked_early = At 5000
   \<and> pongAt ticked_early = Unset
   \<and> intervals ticked_early ! 0
   \<and> terminations (task example_lib 10000 (interval_fires example_lib 10000 0) ticked_early) = 0
   \<and> pingAt (task example_lib 10000 (interval_fires example_lib 10000 0) ticked_early) = At 10000
   \<and> wire (task example_lib 10000 (interval_fires example_lib 10000 0) ticked_early) = []"
  by (simp add: ticked_early_eq connecting_public run_defs)

section \<open>Repeated subscriptions\<close>

lemma call_key_Str: "\<exists>k. call_key call = Str k"
  by (cases "snd call") (simp_all add: call_key_def toId_def)

lemma includes_Str: "list_ex (\<lambda>x. strict_eq x (Str k)) xs \<longleftrightarrow> Str k \<in> set xs"
proof (induction xs)
  case Nil then show ?case by simp
next
  case (Cons x xs)
  then show ?case by (cases x) auto
qed

lemma subscribe_registered:
  assumes "connected st" and "toId mkt chan = Str k" and "Str k \<in> set (map id' (subscriptions st))"
  shows "subscribe L chan mkt st =
           (Done None, log ''refusing to channel subscribe twice'' [mkt, chan] st)"
  using assms by (simp add: subscribe_def subscribe_resume_def includes_Str Let_def)

lemma subscribe_fresh:
  assumes "connected st" and "toId mkt chan = Str k" and "Str k \<notin> set (map id' (subscriptions st))"
  shows "subscribe L chan mkt st =
           (Done (Some (length (promises st))),
            st\<lparr>subscriptions := subscriptions st @
                  [\<lparr>id' = Str k, channel = chan, market = mkt,
                    doneHook = Some (length (promises st)), done' = Some (length (promises st))\<rparr>],
               promises := promises st @ [PendingP []],
               wire := wire st @
                  [JSON_stringify L
                     (Obj [(''op'', Str ''subscribe''), (''market'', mkt), (''channel'', chan)])]\<rparr>)"
  using assms
  by (simp add: subscribe_def subscribe_resume_def includes_Str Let_def u_subscribe_def
      new_promise_def sendMessage_def ws_send_def subscribe_message_def nth_append)

lemma subscribe_all_snoc:
  "subscribe_all L (calls @ [(chan, mkt)]) st = snd (subscribe L chan mkt (subscribe_all L calls st))"
  by (simp add: subscribe_all_def)

lemma subscribe_all_connected:
  assumes "connected st"
  shows "connected (subscribe_all L (map typed_call calls) st)
       \<and> map id' (subscriptions (subscribe_all L (map typed_call calls) st))
           = map id' (subscriptions st)
             @ filter (\<lambda>k. k \<notin> set (map id' (subscriptions st)))
                 (rev (remdups (rev (map call_key calls))))
       \<and> take (length (subscriptions st)) (subscriptions (subscribe_all L (map typed_call calls) st))
           = subscriptions st
       \<and> wire (subscribe_all L (map typed_call calls) st)
           = wire st @ map (\<lambda>sub. JSON_stringify L (subscribe_message sub))
               (drop (length (subscriptions st)) (subscriptions (subscribe_all L (map typed_call calls) st)))"
proof (induction calls rule: rev_induct)
  case Nil
  show ?case using assms by (simp add: subscribe_all_def)
next
  case (snoc call calls)
  let ?st' = "subscribe_all L (map typed_call calls) st"
  let ?old = "map id' (subscriptions st)"
  let ?keys = "map call_key calls"
  obtain k where k: "call_key call = Str k" using call_key_Str by blast
  then have tk: "toId (opt_str (snd call)) (Str (fst call)) = Str k" by (simp add: call_key_def)
  have step: "subscribe_all L (map typed_call (calls @ [call])) st
              = snd (subscribe L (Str (fst call)) (opt_str (snd call)) ?st')"
    by (simp add: subscribe_all_snoc typed_call_def)
  from snoc have c: "connected ?st'"
    and ids: "map id' (subscriptions ?st') = ?old @ filter (\<lambda>k. k \<notin> set ?old) (rev (remdups (rev ?keys)))"
    and tk': "take (length (subscriptions st)) (subscriptions ?st') = subscriptions st"
    and w: "wire ?st' = wire st @ map (\<lambda>sub. JSON_stringify L (subscribe_message sub))
               (drop (length (subscriptions st)) (subscriptions ?st'))"
    by simp_all
  have len: "length (subscriptions st) \<le> length (subscriptions ?st')"
    using arg_cong[OF ids, of length] by simp
  have mem: "Str k \<in> set (map id' (subscriptions ?st')) \<longleftrightarrow> Str k \<in> set ?old \<or> Str k \<in> set ?keys"
    by (subst ids) auto
  show ?case
  proof (cases "Str k \<in> set (map id' (subscriptions ?st'))")
    case True
    have "subscribe L (Str (fst call)) (opt_str (snd call)) ?st'
          = (Done None, log ''refusing to channel subscribe twice'' [opt_str (snd call), Str (fst call)] ?st')"
      using c tk True by (rule subscribe_registered)
    with step have eq: "subscribe_all L (map typed_call (calls @ [call])) st
          = log ''refusing to channel subscribe twice'' [opt_str (snd call), Str (fst call)] ?st'"
      by simp
    from True mem have "Str k \<in> set ?old \<or> Str k \<in> set ?keys" by simp
    then have f: "filter (\<lambda>k. k \<notin> set ?old) (rev (remdups (rev (map call_key (calls @ [call])))))
               = filter (\<lambda>k. k \<notin> set ?old) (rev (remdups (rev ?keys)))"
      using k by auto
    show ?thesis
      unfolding eq using c ids tk' w f by (simp add: log_def)
  next
    case False
    have "subscribe L (Str (fst call)) (opt_str (snd call)) ?st'
          = (Done (Some (length (promises ?st'))),
             ?st'\<lparr>subscriptions := subscriptions ?st' @
                  [\<lparr>id' = Str k, channel = Str (fst call), market = opt_str (snd call),
                    doneHook = Some (length (promises ?st')), done' = Some (length (promises ?st'))\<rparr>],
               promises := promises ?st' @ [PendingP []],
               wire := wire ?st' @
                  [JSON_stringify L
                     (Obj [(''op'', Str ''subscribe''), (''market'', opt_str (snd call)),
                           (''channel'', Str (fst call))])]\<rparr>)"
      using c tk False by (rule subscribe_fresh)
    with step have eq: "subscribe_all L (map typed_call (calls @ [call])) st
          = ?st'\<lparr>subscriptions := subscriptions ?st' @
                  [\<lparr>id' = Str k, channel = Str (fst call), market = opt_str (snd call),
                    doneHook = Some (length (promises ?st')), done' = Some (length (promises ?st'))\<rparr>],
               promises := promises ?st' @ [PendingP []],
               wire := wire ?st' @
                  [JSON_stringify L
                     (Obj [(''op'', Str ''subscribe''), (''market'', opt_str (snd call)),
                           (''channel'', Str (fst call))])]\<rparr>"
      by simp
    from False mem have "Str k \<notin> set ?old" "Str k \<notin> set ?keys" by simp_all
    then have f: "filter (\<lambda>k. k \<notin> set ?old) (rev (remdups (rev (map call_key (calls @ [call])))))
               = filter (\<lambda>k. k \<notin> set ?old) (rev (remdups (rev ?keys))) @ [Str k]"
      using k by auto
    show ?thesis
      unfolding eq using c ids tk' w f len by (simp add: subscribe_message_def)
  qed
qed

text \<open>
  Claim C3, amended. For every sequence of \<open>subscribe\<close> calls made while connected
  (string channels, string or absent markets), the registry ends with its earlier
  entries unchanged, followed by exactly one entry per distinct topic key not yet
  registered, in the order of the first request for each key; so the keys stay distinct.
  The frames sent are one subscribe operation per new entry, in that order. A call
  whose key is already registered is refused: it logs a line and returns, adding no
  entry and sending nothing.
\<close>

theorem subscribe_once_per_key:
  assumes "connected st"
  shows "map id' (subscriptions (subscribe_all L (map typed_call calls) st))
           = map id' (subscriptions st)
             @ filter (\<lambda>k. k \<notin> set (map id' (subscriptions st)))
                 (rev (remdups (rev (map call_key calls))))
       \<and> (distinct (map id' (subscriptions st))
            \<longrightarrow> distinct (map id' (subscriptions (subscribe_all L (map typed_call calls) st))))
       \<and> take (length (subscriptions st)) (subscriptions (subscribe_all L (map typed_call calls) st))
           = subscriptions st
       \<and> wire (subscribe_all L (map typed_call calls) st)
           = wire st @ map (\<lambda>sub. JSON_stringify L (subscribe_message sub))
               (drop (length (subscriptions st)) (subscriptions (subscribe_all L (map typed_call calls) st)))
       \<and> (\<forall>call. call_key call \<in> set (map id' (subscriptions st)) \<longrightarrow>
             subscribe L (Str (fst call)) (opt_str (snd call)) st
               = (Done None,
                  log ''refusing to channel subscribe twice'' [opt_str (snd call), Str (fst call)] st))"
proof -
  have d: "distinct (filter (\<lambda>k. k \<notin> set (map id' (subscriptions st)))
                 (rev (remdups (rev (map call_key calls)))))"
    by simp
  have r: "subscribe L (Str (fst call)) (opt_str (snd call)) st
             = (Done None, log ''refusing to channel subscribe twice'' [opt_str (snd call), Str (fst call)] st)"
    if "call_key call \<in> set (map id' (subscriptions st))" for call
  proof -
    obtain k where k: "call_key call = Str k" using call_key_Str by blast
    then have "toId (opt_str (snd call)) (Str (fst call)) = Str k" by (simp add: call_key_def)
    moreover from that k have "Str k \<in> set (map id' (subscriptions st))" by simp
    ultimately show ?thesis using assms by (intro subscribe_registered)
  qed
  from subscribe_all_connected[OF assms, of L calls] d r show ?thesis
    by (auto simp del: set_map map_map)
qed

lemma sample_calls_run:
  \<open>subscribe_all example_lib (map typed_call sample_calls) (opened public_conf) =
     (opened public_conf)
       \<lparr>subscriptions :=
          [\<lparr>id' = Str ''BTC-PERP::ticker'', channel = Str ''ticker'', market = Str ''BTC-PERP'',
            doneHook = Some 1, done' = Some 1\<rparr>,
           \<lparr>id' = Str ''fills'', channel = Str ''fills'', market = Undefined,
            doneHook = Some 2, done' = Some 2\<rparr>],
        promises := [Fulfilled, PendingP [], PendingP []],
        wire := [''{"op":"subscribe","market":"BTC-PERP","channel":"ticker"}'',
                 ''{"op":"subscribe","channel":"fills"}''],
        logs := [(''refusing to channel subscribe twice'', [Str ''BTC-PERP'', Str ''ticker''])]\<rparr>\<close>
  by (simp add: sample_calls_def subscribe_all_def typed_call_def opened_public run_defs
      example_lib_def quote_def)

theorem subscribe_once_per_key_witness:
  \<open>connected (opened public_conf)
   \<and> map id' (subscriptions (subscribe_all example_lib (map typed_call sample_calls) (opened public_conf)))
       = [Str ''BTC-PERP::ticker'', Str ''fills'']
   \<and> wire (subscribe_all example_lib (map typed_call sample_calls) (opened public_conf))
       = [''{"op":"subscribe","market":"BTC-PERP","channel":"ticker"}'',
          ''{"op":"subscribe","channel":"fills"}'']
   \<and> logs (subscribe_all example_lib (map typed_call sample_calls) (opened public_conf))
       = [(''refusing to channel subscribe twice'', [Str ''BTC-PERP'', Str ''ticker''])]\<close>
  using subscribe_once_per_key[of "opened public_conf" example_lib sample_calls]
  by (simp add: sample_calls_run) (simp add: opened_public)

text \<open>
  As first stated, the claim counts one entry per distinct pair of market and channel.
  Two distinct pairs with one key get one entry.
\<close>

theorem subscribe_once_per_pair_counterexample:
  "distinct (map typed_call [(''b'', Some ''a''), (''a::b'', None)])
   \<and> length (subscriptions (subscribe_all example_lib
        (map typed_call [(''b'', Some ''a''), (''a::b'', None)]) (opened public_conf))) = 1"
  by (simp add: subscribe_all_def typed_call_def opened_public run_defs example_lib_def quote_def)

section \<open>Replay after a reconnection\<close>

lemma subscribe_message_hooks [simp]:
  "subscribe_message (sub\<lparr>doneHook := h, done' := d\<rparr>) = subscribe_message sub"
  by (simp add: subscribe_message_def)

lemma u_subscribe_connected:
  assumes "connected st" and "i < length (subscriptions st)"
  shows "u_subscribe L i st =
           st\<lparr>subscriptions := (subscriptions st)
                  [i := (subscriptions st ! i)\<lparr>doneHook := Some (length (promises st)),
                                              done' := Some (length (promises st))\<rparr>],
              promises := promises st @ [PendingP []],
              wire := wire st @ [JSON_stringify L (subscribe_message (subscriptions st ! i))]\<rparr>"
  using assms
  by (simp add: u_subscribe_def new_promise_def sendMessage_def ws_send_def Let_def)

lemma replay_prefix:
  assumes "connected st" and "m \<le> length (subscriptions st)"
  shows "fold (u_subscribe L) [0..<m] st =
           st\<lparr>subscriptions :=
                map (\<lambda>i. if i < m
                          then (subscriptions st ! i)\<lparr>doneHook := Some (length (promises st) + i),
                                                      done' := Some (length (promises st) + i)\<rparr>
                          else subscriptions st ! i)
                    [0..<length (subscriptions st)],
              promises := promises st @ replicate m (PendingP []),
              wire := wire st @ map (\<lambda>i. JSON_stringify L (subscribe_message (subscriptions st ! i))) [0..<m]\<rparr>"
  using assms(2)
proof (induction m)
  case 0
  show ?case by (simp add: map_nth)
next
  case (Suc m)
  then have m: "m < length (subscriptions st)" by simp
  let ?stm = "st\<lparr>subscriptions :=
                map (\<lambda>i. if i < m
                          then (subscriptions st ! i)\<lparr>doneHook := Some (length (promises st) + i),
                                                      done' := Some (length (promises st) + i)\<rparr>
                          else subscriptions st ! i)
                    [0..<length (subscriptions st)],
              promises := promises st @ replicate m (PendingP []),
              wire := wire st @ map (\<lambda>i. JSON_stringify L (subscribe_message (subscriptions st ! i))) [0..<m]\<rparr>"
  have IH: "fold (u_subscribe L) [0..<m] st = ?stm" using Suc by simp
  have c: "connected ?stm" using assms(1) by simp
  have l: "m < length (subscriptions ?stm)" using m by simp
  have subs: "(subscriptions ?stm)
                [m := (subscriptions ?stm ! m)\<lparr>doneHook := Some (length (promises ?stm)),
                                               done' := Some (length (promises ?stm))\<rparr>]
              = map (\<lambda>i. if i < Suc m
                          then (subscriptions st ! i)\<lparr>doneHook := Some (length (promises st) + i),
                                                      done' := Some (length (promises st) + i)\<rparr>
                          else subscriptions st ! i)
                    [0..<length (subscriptions st)]"
    using m by (auto intro!: nth_equalityI simp: nth_list_update less_Suc_eq)
  have "fold (u_subscribe L) [0..<Suc m] st = u_subscribe L m ?stm"
    using IH by simp
  also have "\<dots> = ?stm\<lparr>subscriptions := (subscriptions ?stm)
                  [m := (subscriptions ?stm ! m)\<lparr>doneHook := Some (length (promises ?stm)),
                                              done' := Some (length (promises ?stm))\<rparr>],
              promises := promises ?stm @ [PendingP []],
              wire := wire ?stm @ [JSON_stringify L (subscribe_message (subscriptions ?stm ! m))]\<rparr>"
    using c l by (rule u_subscribe_connected)
  also have "\<dots> = st\<lparr>subscriptions :=
                map (\<lambda>i. if i < Suc m
                          then (subscriptions st ! i)\<lparr>doneHook := Some (length (promises st) + i),
                                                      done' := Some (length (promises st) + i)\<rparr>
                          else subscriptions st ! i)
                    [0..<length (subscriptions st)],
              promises := promises st @ replicate (Suc m) (PendingP []),
              wire := wire st @ map (\<lambda>i. JSON_stringify L (subscribe_message (subscriptions st ! i))) [0..<Suc m]\<rparr>"
    unfolding subs using m by (simp add: replicate_append_same)
  finally show ?case .
qed

lemma replay_connected:
  assumes "connected st"
  shows "replay L st =
           st\<lparr>subscriptions :=
                map (\<lambda>(p, sub). sub\<lparr>doneHook := Some p, done' := Some p\<rparr>)
                    (enumerate (length (promises st)) (subscriptions st)),
              promises := promises st @ replicate (length (subscriptions st)) (PendingP []),
              wire := wire st @ map (\<lambda>sub. JSON_stringify L (subscribe_message sub)) (subscriptions st)\<rparr>"
proof -
  have a: "map (\<lambda>i. if i < length (subscriptions st)
                          then (subscriptions st ! i)\<lparr>doneHook := Some (length (promises st) + i),
                                                      done' := Some (length (promises st) + i)\<rparr>
                          else subscriptions st ! i)
                    [0..<length (subscriptions st)]
           = map (\<lambda>(p, sub). sub\<lparr>doneHook := Some p, done' := Some p\<rparr>)
                    (enumerate (length (promises st)) (subscriptions st))"
    by (auto intro!: nth_equalityI simp: nth_enumerate_eq)
  have b: "map (\<lambda>i. JSON_stringify L (subscribe_message (subscriptions st ! i))) [0..<length (subscriptions st)]
           = map (\<lambda>sub. JSON_stringify L (subscribe_message sub)) (subscriptions st)"
    by (auto intro!: nth_equalityI)
  show ?thesis
    unfolding replay_def using replay_prefix[OF assms order_refl, of L]
    by (simp only: a b)
qed

lemma resolve_keeps_earlier:
  "n \<le> p \<Longrightarrow> take n (promises (resolve p st)) = take n (promises st)"
  by (simp add: resolve_def split: pstate.splits)

lemma acknowledge_keeps_earlier:
  assumes "\<forall>sub \<in> set subs. \<forall>p. doneHook sub = Some p \<longrightarrow> n \<le> p"
  shows "take n (promises (snd (acknowledge m c subs st))) = take n (promises st)"
  using assms
proof (induction subs arbitrary: st)
  case Nil
  then show ?case by simp
next
  case (Cons sub subs)
  show ?case
  proof (cases "strict_eq (market sub) m \<and> strict_eq (channel sub) c")
    case False
    then have "acknowledge m c (sub # subs) st = acknowledge m c subs st" by auto
    moreover have "take n (promises (snd (acknowledge m c subs st))) = take n (promises st)"
      using Cons.prems by (intro Cons.IH) simp
    ultimately show ?thesis by simp
  next
    case True
    show ?thesis
    proof (cases "doneHook sub")
      case None
      with True show ?thesis by simp
    next
      case (Some p)
      with Cons.prems have "n \<le> p" by simp
      then have "take n (promises (resolve p st)) = take n (promises st)"
        by (rule resolve_keeps_earlier)
      moreover have "take n (promises (snd (acknowledge m c subs (resolve p st))))
                     = take n (promises (resolve p st))"
        using Cons.prems by (intro Cons.IH) simp
      ultimately show ?thesis using True Some by simp
    qed
  qed
qed

lemma handleWSMessage_keeps_earlier:
  assumes "\<forall>sub \<in> set (subscriptions st). \<forall>p. doneHook sub = Some p \<longrightarrow> n \<le> p"
  shows "take n (promises (snd (handleWSMessage L now dat st))) = take n (promises st)"
proof -
  have a: "take n (promises (snd (acknowledge m c (subscriptions st) s))) = take n (promises s)" for m c s
    using assms by (rule acknowledge_keeps_earlier)
  show ?thesis
    by (cases "JSON_parse L dat")
       (simp_all add: handleWSMessage_def Let_def log_def emit_def a)
qed

lemma resolve_frame [simp]:
  "subscriptions (resolve p st) = subscriptions st"
  "connected (resolve p st) = connected st"
  "length (promises (resolve p st)) = length (promises st)"
  by (simp_all add: resolve_def split: pstate.splits)

lemma acknowledge_frame [simp]:
  "subscriptions (snd (acknowledge m c subs st)) = subscriptions st"
  "connected (snd (acknowledge m c subs st)) = connected st"
  "length (promises (snd (acknowledge m c subs st))) = length (promises st)"
  by (induction subs arbitrary: st) (simp_all split: option.splits)

lemma handleWSMessage_frame [simp]:
  "subscriptions (snd (handleWSMessage L now dat st)) = subscriptions st"
  "connected (snd (handleWSMessage L now dat st)) = connected st"
  "length (promises (snd (handleWSMessage L now dat st))) = length (promises st)"
  by (cases "JSON_parse L dat"; simp add: handleWSMessage_def Let_def log_def emit_def)+

lemma run_step_keeps_earlier:
  assumes "connected st" and "hooks_from n st" and "n \<le> length (promises st)"
  shows "connected (run_step L x st) \<and> hooks_from n (run_step L x st)
       \<and> n \<le> length (promises (run_step L x st))
       \<and> take n (promises (run_step L x st)) = take n (promises st)"
proof (cases x)
  case (Frame now dat)
  have "take n (promises (snd (handleWSMessage L now dat st))) = take n (promises st)"
    using assms(2) unfolding hooks_from_def by (rule handleWSMessage_keeps_earlier)
  with Frame assms show ?thesis
    by (simp add: ws_onmessage_def hooks_from_def)
next
  case Replay
  have r: "replay L st =
           st\<lparr>subscriptions :=
                map (\<lambda>(p, sub). sub\<lparr>doneHook := Some p, done' := Some p\<rparr>)
                    (enumerate (length (promises st)) (subscriptions st)),
              promises := promises st @ replicate (length (subscriptions st)) (PendingP []),
              wire := wire st @ map (\<lambda>sub. JSON_stringify L (subscribe_message sub)) (subscriptions st)\<rparr>"
    using assms(1) by (rule replay_connected)
  have "hooks_from n (replay L st)"
    unfolding r hooks_from_def using assms(3) by (auto simp: in_set_enumerate_eq)
  with Replay assms show ?thesis by (simp add: r)
qed

lemma run_steps_keep_earlier:
  assumes "connected st" and "hooks_from n st" and "n \<le> length (promises st)"
  shows "take n (promises (run_steps L steps st)) = take n (promises st)"
  using assms
proof (induction steps arbitrary: st)
  case Nil
  then show ?case by (simp add: run_steps_def)
next
  case (Cons x steps)
  from run_step_keeps_earlier[OF Cons.prems, of L x]
  have a: "connected (run_step L x st)" "hooks_from n (run_step L x st)"
      "n \<le> length (promises (run_step L x st))"
      "take n (promises (run_step L x st)) = take n (promises st)"
    by simp_all
  have "run_steps L (x # steps) st = run_steps L steps (run_step L x st)"
    by (simp add: run_steps_def)
  with Cons.IH[OF a(1-3)] a(4) show ?case by simp
qed

lemma acknowledge_indexed:
  assumes "\<forall>j < length subs. doneHook (subs ! j) = Some (length A + j)"
      and "promises s = A @ Q" and "length Q = length subs"
  shows "fst (acknowledge m c subs s) = Done ()
       \<and> promises (snd (acknowledge m c subs s))
           = A @ map (\<lambda>(sub, q). if strict_eq (market sub) m \<and> strict_eq (channel sub) c
                                  then Fulfilled else q) (zip subs Q)"
  using assms
proof (induction subs arbitrary: A Q s)
  case Nil
  then show ?case by simp
next
  case (Cons sub subs)
  then obtain q Q' where Q: "Q = q # Q'" by (cases Q) auto
  from Cons.prems(1) have h0: "doneHook sub = Some (length A)" by auto
  from Cons.prems(1) have ht: "\<forall>j < length subs. doneHook (subs ! j) = Some (length (A @ [x]) + j)" for x
    by auto
  show ?case
  proof (cases "strict_eq (market sub) m \<and> strict_eq (channel sub) c")
    case True
    have p: "promises (resolve (length A) s) = (A @ [Fulfilled]) @ Q'"
      using Cons.prems(2) Q by (cases q) (simp_all add: resolve_def)
    have "fst (acknowledge m c subs (resolve (length A) s)) = Done ()
       \<and> promises (snd (acknowledge m c subs (resolve (length A) s)))
           = (A @ [Fulfilled]) @ map (\<lambda>(sub, q). if strict_eq (market sub) m \<and> strict_eq (channel sub) c
                                  then Fulfilled else q) (zip subs Q')"
      using ht[of Fulfilled] p Cons.prems(3) Q by (intro Cons.IH) simp_all
    with True h0 Q show ?thesis by simp
  next
    case False
    have p: "promises s = (A @ [q]) @ Q'" using Cons.prems(2) Q by simp
    have "fst (acknowledge m c subs s) = Done ()
       \<and> promises (snd (acknowledge m c subs s))
           = (A @ [q]) @ map (\<lambda>(sub, q). if strict_eq (market sub) m \<and> strict_eq (channel sub) c
                                  then Fulfilled else q) (zip subs Q')"
      using ht[of q] p Cons.prems(3) Q by (intro Cons.IH) simp_all
    moreover from False have "acknowledge m c (sub # subs) s = acknowledge m c subs s" by auto
    moreover from False have "(if strict_eq (market sub) m \<and> strict_eq (channel sub) c
                                  then Fulfilled else q) = q" by auto
    ultimately show ?thesis unfolding Q by (simp del: acknowledge.simps)
  qed
qed

lemma run_frames_frame:
  "subscriptions (run_steps L (frames fs) st) = subscriptions st
   \<and> length (promises (run_steps L (frames fs) st)) = length (promises st)"
proof (induction fs arbitrary: st)
  case Nil
  show ?case by (simp add: run_steps_def frames_def)
next
  case (Cons f fs)
  obtain now dat where f: "f = (now, dat)" by (cases f)
  have "run_steps L (frames (f # fs)) st = run_steps L (frames fs) (ws_onmessage L now dat st)"
    by (simp add: run_steps_def frames_def f)
  with Cons[of "ws_onmessage L now dat st"] show ?case
    by (simp add: ws_onmessage_def)
qed

text \<open>
  Claim C2, amended. On a connected connection the replay re-issues the subscribe
  operation of every stored subscription, in order, and gives every subscription a new
  completion signal with its resolver: \<open>_subscribe\<close> makes a promise at every call. The
  signals made earlier, among them the one that the first \<open>subscribe\<close> call returned,
  are not reused: the replay leaves them as they are, and so does everything handled
  afterwards, frames and further replays. An acknowledgment handled after the replay,
  directly or after other frames, fulfils the new signal of every subscription whose
  market and channel it carries.
\<close>

theorem replay_renews_signals:
  assumes "connected st"
  shows "replay L st =
           st\<lparr>subscriptions :=
                map (\<lambda>(p, sub). sub\<lparr>doneHook := Some p, done' := Some p\<rparr>)
                    (enumerate (length (promises st)) (subscriptions st)),
              promises := promises st @ replicate (length (subscriptions st)) (PendingP []),
              wire := wire st @ map (\<lambda>sub. JSON_stringify L (subscribe_message sub)) (subscriptions st)\<rparr>
       \<and> (\<forall>steps. take (length (promises st)) (promises (run_steps L steps (replay L st)))
                    = promises st)
       \<and> (\<forall>fs now dat payload.
             JSON_parse L PONG = Some (Obj [(''type'', Str ''pong'')])
             \<and> JSON_parse L dat = Some payload
             \<and> get_prop payload ''type'' = Str ''subscribed''
             \<longrightarrow> fst (handleWSMessage L now dat (run_steps L (frames fs) (replay L st))) = Done ()
                 \<and> (\<forall>i < length (subscriptions st).
                       strict_eq (market (subscriptions st ! i)) (get_prop payload ''market'')
                       \<and> strict_eq (channel (subscriptions st ! i)) (get_prop payload ''channel'')
                       \<longrightarrow> promises (snd (handleWSMessage L now dat
                                (run_steps L (frames fs) (replay L st))))
                             ! (length (promises st) + i) = Fulfilled))"
proof -
  let ?n = "length (promises st)"
  let ?subs = "subscriptions st"
  have r: "replay L st =
           st\<lparr>subscriptions :=
                map (\<lambda>(p, sub). sub\<lparr>doneHook := Some p, done' := Some p\<rparr>) (enumerate ?n ?subs),
              promises := promises st @ replicate (length ?subs) (PendingP []),
              wire := wire st @ map (\<lambda>sub. JSON_stringify L (subscribe_message sub)) ?subs\<rparr>"
    using assms by (rule replay_connected)
  have c: "connected (replay L st)" using assms by (simp add: r)
  have hooks: "hooks_from ?n (replay L st)"
    unfolding r hooks_from_def by (auto simp: in_set_enumerate_eq)
  have len: "?n \<le> length (promises (replay L st))" by (simp add: r)
  have keep: "take ?n (promises (run_steps L steps (replay L st))) = promises st" for steps
    using run_steps_keep_earlier[OF c hooks len, of L steps] by (simp add: r)
  have ack: "fst (handleWSMessage L now dat (run_steps L (frames fs) (replay L st))) = Done ()
           \<and> (\<forall>i < length ?subs.
                 strict_eq (market (?subs ! i)) (get_prop payload ''market'')
                 \<and> strict_eq (channel (?subs ! i)) (get_prop payload ''channel'')
                 \<longrightarrow> promises (snd (handleWSMessage L now dat
                          (run_steps L (frames fs) (replay L st)))) ! (?n + i) = Fulfilled)"
    if pong: "JSON_parse L PONG = Some (Obj [(''type'', Str ''pong'')])"
      and dat: "JSON_parse L dat = Some payload"
      and ty: "get_prop payload ''type'' = Str ''subscribed''"
    for fs now dat payload
  proof -
    let ?R = "run_steps L (frames fs) (replay L st)"
    let ?m = "get_prop payload ''market''" and ?c = "get_prop payload ''channel''"
    let ?f = "\<lambda>(sub, q). if strict_eq (market sub) ?m \<and> strict_eq (channel sub) ?c
                            then Fulfilled else q"
    from pong dat ty have ne: "dat \<noteq> PONG" by auto
    from ty have nn: "\<not> nullish payload" by (cases payload) auto
    have subsR: "subscriptions ?R
                 = map (\<lambda>(p, sub). sub\<lparr>doneHook := Some p, done' := Some p\<rparr>) (enumerate ?n ?subs)"
      and lenR: "length (promises ?R) = ?n + length ?subs"
      using run_frames_frame[of L fs "replay L st"] by (simp_all add: r)
    define Q where "Q = drop ?n (promises ?R)"
    have pR: "promises ?R = promises st @ Q"
      using keep[of "frames fs"] append_take_drop_id[of ?n "promises ?R"] by (simp add: Q_def)
    have lQ: "length Q = length (subscriptions ?R)" by (simp add: Q_def lenR subsR)
    have hk: "\<forall>j < length (subscriptions ?R). doneHook (subscriptions ?R ! j) = Some (?n + j)"
      by (simp add: subsR nth_enumerate_eq)
    have h: "handleWSMessage L now dat ?R
             = acknowledge ?m ?c (subscriptions ?R) (?R\<lparr>lastMessageAt := now\<rparr>)"
      using ne nn dat ty by (simp add: handleWSMessage_def Let_def)
    from acknowledge_indexed[of "subscriptions ?R" "promises st" "?R\<lparr>lastMessageAt := now\<rparr>" Q ?m ?c]
    have a: "fst (acknowledge ?m ?c (subscriptions ?R) (?R\<lparr>lastMessageAt := now\<rparr>)) = Done ()"
      and b: "promises (snd (acknowledge ?m ?c (subscriptions ?R) (?R\<lparr>lastMessageAt := now\<rparr>)))
              = promises st @ map ?f (zip (subscriptions ?R) Q)"
      using hk pR lQ by simp_all
    have "promises (snd (handleWSMessage L now dat ?R)) ! (?n + i) = Fulfilled"
      if i: "i < length ?subs"
        and m: "strict_eq (market (?subs ! i)) ?m \<and> strict_eq (channel (?subs ! i)) ?c" for i
    proof -
      have "i < length (zip (subscriptions ?R) Q)" using i lQ by (simp add: subsR)
      then have "(promises st @ map ?f (zip (subscriptions ?R) Q)) ! (?n + i)
                 = ?f (subscriptions ?R ! i, Q ! i)"
        by (simp add: nth_append)
      also have "\<dots> = Fulfilled" using i m by (simp add: subsR nth_enumerate_eq)
      finally show ?thesis by (simp add: h b)
    qed
    with a h show ?thesis by simp
  qed
  from r keep ack show ?thesis by blast
qed

lemma subscribed_eq:
  \<open>subscribed =
     (opened public_conf)
       \<lparr>subscriptions :=
          [\<lparr>id' = Str ''BTC-PERP::ticker'', channel = Str ''ticker'', market = Str ''BTC-PERP'',
            doneHook = Some 1, done' = Some 1\<rparr>,
           \<lparr>id' = Str ''fills'', channel = Str ''fills'', market = Undefined,
            doneHook = Some 2, done' = Some 2\<rparr>],
        promises := [Fulfilled, PendingP [], PendingP []],
        wire := [''{"op":"subscribe","market":"BTC-PERP","channel":"ticker"}'',
                 ''{"op":"subscribe","channel":"fills"}''],
        logs := [(''refusing to channel subscribe twice'', [Str ''BTC-PERP'', Str ''ticker''])]\<rparr>\<close>
  by (simp add: subscribed_def sample_calls_run)

lemma reopened_eq:
  \<open>reopened =
     subscribed
       \<lparr>connected := True, isReadyHook := 4, isReady := 4, reconnecting := True,
        afterReconnect := Some 3,
        subscriptions :=
          [\<lparr>id' = Str ''BTC-PERP::ticker'', channel = Str ''ticker'', market = Str ''BTC-PERP'',
            doneHook = Some 5, done' = Some 5\<rparr>,
           \<lparr>id' = Str ''fills'', channel = Str ''fills'', market = Undefined,
            doneHook = Some 6, done' = Some 6\<rparr>],
        pingAt := Cleared, pongAt := Cleared, heartbeat := Some 1,
        promises := [Fulfilled, PendingP [], PendingP [], Fulfilled, Fulfilled, PendingP [], PendingP []],
        sockets := [(''wss://ftx.com/ws/'', []), (''wss://ftx.com/ws/'', [])],
        timeouts := [None], intervals := [False, True],
        wire := [''{"op":"subscribe","market":"BTC-PERP","channel":"ticker"}'',
                 ''{"op":"subscribe","channel":"fills"}'',
                 ''{"op":"subscribe","market":"BTC-PERP","channel":"ticker"}'',
                 ''{"op":"subscribe","channel":"fills"}''],
        logs := [(''refusing to channel subscribe twice'', [Str ''BTC-PERP'', Str ''ticker'']),
                 (''[FTX] CLOSED CON'', []), (''[FTX] RECONNECTING...'', [])]\<rparr>\<close>
  by (simp add: reopened_def subscribed_eq opened_public run_defs example_lib_def quote_def)

lemma acknowledged_eq:
  \<open>acknowledged =
     reopened\<lparr>lastMessageAt := 11100,
              promises := [Fulfilled, PendingP [], PendingP [], Fulfilled, Fulfilled, Fulfilled, PendingP []]\<rparr>\<close>
  by (simp add: acknowledged_def reopened_eq subscribed_eq opened_public run_defs example_lib_def
      example_frames_def PONG_def)

theorem replay_renews_signals_witness:
  \<open>connected subscribed
   \<and> map done' (subscriptions subscribed) = [Some 1, Some 2]
   \<and> map done' (subscriptions (replay example_lib subscribed)) = [Some 3, Some 4]
   \<and> promises (replay example_lib subscribed)
       = [Fulfilled, PendingP [], PendingP [], PendingP [], PendingP []]
   \<and> wire (replay example_lib subscribed)
       = wire subscribed @ [''{"op":"subscribe","market":"BTC-PERP","channel":"ticker"}'',
                            ''{"op":"subscribe","channel":"fills"}'']
   \<and> take 3 (promises (run_steps example_lib
         [Frame 2000 ''{"type":"subscribed","market":"BTC-PERP","channel":"ticker"}'',
          Replay,
          Frame 2100 ''{"type":"subscribed","market":"BTC-PERP","channel":"ticker"}'']
         (replay example_lib subscribed)))
       = [Fulfilled, PendingP [], PendingP []]
   \<and> fst (handleWSMessage example_lib 2000
         ''{"type":"subscribed","market":"BTC-PERP","channel":"ticker"}''
         (run_steps example_lib
            (frames [(1900, ''{"type":"update","market":"BTC-PERP","channel":"ticker","data":{"bid":1}}'')])
            (replay example_lib subscribed)))
       = Done ()
   \<and> promises (snd (handleWSMessage example_lib 2000
         ''{"type":"subscribed","market":"BTC-PERP","channel":"ticker"}''
         (run_steps example_lib
            (frames [(1900, ''{"type":"update","market":"BTC-PERP","channel":"ticker","data":{"bid":1}}'')])
            (replay example_lib subscribed)))) ! 3
       = Fulfilled\<close>
proof -
  have c: "connected subscribed" by (simp add: subscribed_eq opened_public)
  note r = replay_renews_signals[OF c, of example_lib]
  from r have r1: \<open>take (length (promises subscribed))
         (promises (run_steps example_lib
           [Frame 2000 ''{"type":"subscribed","market":"BTC-PERP","channel":"ticker"}'',
            Replay,
            Frame 2100 ''{"type":"subscribed","market":"BTC-PERP","channel":"ticker"}'']
           (replay example_lib subscribed)))
       = promises subscribed\<close>
    by blast
  have p: \<open>JSON_parse example_lib PONG = Some (Obj [(''type'', Str ''pong'')])
        \<and> JSON_parse example_lib ''{"type":"subscribed","market":"BTC-PERP","channel":"ticker"}''
            = Some (Obj [(''type'', Str ''subscribed''), (''market'', Str ''BTC-PERP''),
                         (''channel'', Str ''ticker'')])
        \<and> get_prop (Obj [(''type'', Str ''subscribed''), (''market'', Str ''BTC-PERP''),
                         (''channel'', Str ''ticker'')]) ''type'' = Str ''subscribed''\<close>
    by (simp add: example_lib_def example_frames_def PONG_def)
  from r p have r2: \<open>fst (handleWSMessage example_lib 2000
         ''{"type":"subscribed","market":"BTC-PERP","channel":"ticker"}''
         (run_steps example_lib
            (frames [(1900, ''{"type":"update","market":"BTC-PERP","channel":"ticker","data":{"bid":1}}'')])
            (replay example_lib subscribed))) = Done ()
     \<and> (\<forall>i < length (subscriptions subscribed).
           strict_eq (market (subscriptions subscribed ! i))
             (get_prop (Obj [(''type'', Str ''subscribed''), (''market'', Str ''BTC-PERP''),
                         (''channel'', Str ''ticker'')]) ''market'')
           \<and> strict_eq (channel (subscriptions subscribed ! i))
             (get_prop (Obj [(''type'', Str ''subscribed''), (''market'', Str ''BTC-PERP''),
                         (''channel'', Str ''ticker'')]) ''channel'')
           \<longrightarrow> promises (snd (handleWSMessage example_lib 2000
         ''{"type":"subscribed","market":"BTC-PERP","channel":"ticker"}''
         (run_steps example_lib
            (frames [(1900, ''{"type":"update","market":"BTC-PERP","channel":"ticker","data":{"bid":1}}'')])
            (replay example_lib subscribed)))) ! (length (promises subscribed) + i) = Fulfilled)\<close>
    by blast
  from r2 have r3: \<open>promises (snd (handleWSMessage example_lib 2000
         ''{"type":"subscribed","market":"BTC-PERP","channel":"ticker"}''
         (run_steps example_lib
            (frames [(1900, ''{"type":"update","market":"BTC-PERP","channel":"ticker","data":{"bid":1}}'')])
            (replay example_lib subscribed)))) ! (length (promises subscribed) + 0) = Fulfilled\<close>
    by (simp add: subscribed_eq opened_public)
  from r have r0: "replay example_lib subscribed =
           subscribed\<lparr>subscriptions :=
                map (\<lambda>(p, sub). sub\<lparr>doneHook := Some p, done' := Some p\<rparr>)
                    (enumerate (length (promises subscribed)) (subscriptions subscribed)),
              promises := promises subscribed @ replicate (length (subscriptions subscribed)) (PendingP []),
              wire := wire subscribed @ map (\<lambda>sub. JSON_stringify example_lib (subscribe_message sub)) (subscriptions subscribed)\<rparr>"
    by blast
  have n: "length (promises subscribed) = 3" "promises subscribed = [Fulfilled, PendingP [], PendingP []]"
    by (simp_all add: subscribed_eq opened_public)
  from r0 have s0: \<open>map done' (subscriptions subscribed) = [Some 1, Some 2]
     \<and> map done' (subscriptions (replay example_lib subscribed)) = [Some 3, Some 4]
     \<and> promises (replay example_lib subscribed)
         = [Fulfilled, PendingP [], PendingP [], PendingP [], PendingP []]
     \<and> wire (replay example_lib subscribed)
         = wire subscribed @ [''{"op":"subscribe","market":"BTC-PERP","channel":"ticker"}'',
                              ''{"op":"subscribe","channel":"fills"}'']\<close>
    by (simp add: subscribed_eq opened_public example_lib_def quote_def subscribe_message_def
        enumerate_eq_zip eval_nat_numeral)
  from r2 have s2: \<open>fst (handleWSMessage example_lib 2000
         ''{"type":"subscribed","market":"BTC-PERP","channel":"ticker"}''
         (run_steps example_lib
            (frames [(1900, ''{"type":"update","market":"BTC-PERP","channel":"ticker","data":{"bid":1}}'')])
            (replay example_lib subscribed))) = Done ()\<close>
    by blast
  from r3 have s3: \<open>promises (snd (handleWSMessage example_lib 2000
         ''{"type":"subscribed","market":"BTC-PERP","channel":"ticker"}''
         (run_steps example_lib
            (frames [(1900, ''{"type":"update","market":"BTC-PERP","channel":"ticker","data":{"bid":1}}'')])
            (replay example_lib subscribed)))) ! 3 = Fulfilled\<close>
    unfolding n(1) by (simp only: add_0_right)
  from c s0 r1[unfolded n(1), unfolded n(2)] s2 s3 show ?thesis by (intro conjI) blast+
qed

text \<open>
  As first stated, the claim has the replay reuse the signal that the first
  \<open>subscribe\<close> call returned, so that its caller sees the next acknowledgment. Here
  that call returns promise 1; after the reconnection the subscription holds promise
  5, and the acknowledgment fulfils promise 5 and leaves promise 1 pending.
\<close>

theorem replay_reuses_signal_counterexample:
  \<open>fst (subscribe example_lib (Str ''ticker'') (Str ''BTC-PERP'') (opened public_conf)) = Done (Some 1)
   \<and> map done' (subscriptions subscribed) = [Some 1, Some 2]
   \<and> map done' (subscriptions reopened) = [Some 5, Some 6]
   \<and> promises reopened ! 1 = PendingP []
   \<and> promises acknowledged ! 1 = PendingP []
   \<and> promises acknowledged ! 5 = Fulfilled\<close>
  by (simp add: acknowledged_eq reopened_eq subscribed_eq)
     (simp add: opened_public run_defs example_lib_def)

section \<open>The order of sends after a reconnection\<close>

lemma task_ws_onclose:
  assumes "microtasks st = []"
  shows "task L now ws_onclose st =
           st\<lparr>logs := logs st @ [(''[FTX] CLOSED CON'', [])],
              authenticated := False, connected := False,
              intervals := intervals (clearInterval (heartbeat st) st),
              reconnecting := True, pingAt := Cleared, pongAt := Cleared,
              promises := promises st @ [PendingP [], PendingP []],
              afterReconnect := Some (length (promises st)),
              isReady := Suc (length (promises st)), isReadyHook := Suc (length (promises st)),
              timeouts := timeouts st @ [Some (ReconnectWaitedK (length (promises st)))]\<rparr>"
  using assms
  by (cases "heartbeat st")
     (simp_all add: task_def drain_Nil ws_onclose_def reconnect_def clearInterval_def log_def
        new_promise_def await_wait_def Let_def)

lemma send_all_reconnecting:
  assumes "\<not> connected st" and "reconnecting st" and "afterReconnect st = Some h"
      and "h < length (promises st)" and "promises st ! h = PendingP ks" and "microtasks st = []"
  shows "send_all L now ps st = st\<lparr>promises := (promises st)[h := PendingP (ks @ map SendK ps)]\<rparr>"
  using assms
proof (induction ps arbitrary: st ks)
  case Nil
  then have "(promises st)[h := PendingP ks] = promises st"
    by (simp add: list_update_same_conv)
  then show ?case by (simp add: send_all_def)
next
  case (Cons p ps)
  let ?st1 = "st\<lparr>promises := (promises st)[h := PendingP (ks @ [SendK p])]\<rparr>"
  have one: "task L now (\<lambda>s. snd (sendMessage L p s)) st = ?st1"
    using Cons.prems by (simp add: task_def sendMessage_def await_def drain_Nil)
  have "send_all L now (p # ps) st = send_all L now ps ?st1"
    using one by (simp add: send_all_def)
  also have "\<dots> = ?st1\<lparr>promises := (promises ?st1)[h := PendingP ((ks @ [SendK p]) @ map SendK ps)]\<rparr>"
    using Cons.prems by (intro Cons.IH) simp_all
  also have "\<dots> = st\<lparr>promises := (promises st)[h := PendingP (ks @ map SendK (p # ps))]\<rparr>"
    by simp
  finally show ?case .
qed

lemma task_timeout_reconnect:
  assumes "t < length (timeouts st)" and "timeouts st ! t = Some (ReconnectWaitedK h)"
      and "\<not> connected st" and "microtasks st = []"
  shows "task L now (timeout_fires t) st =
           st\<lparr>timeouts := (timeouts st)[t := None],
              logs := logs st @ [(''[FTX] RECONNECTING...'', [])],
              sockets := sockets st @
                [(''wss://'' @ toString (WSendpoint st), [ConnectK (Some (ReconnectConnectedK h))])],
              intervals := intervals st @ [True],
              heartbeat := Some (length (intervals st))\<rparr>"
  using assms
  by (simp add: task_def timeout_fires_def drain_Cons drain_Nil connect_def u_connect_def
      setInterval_def await_open_def log_def Let_def)

lemma drain_sends:
  assumes "microtasks st = map SendK ps"
  shows "drain L now st = st\<lparr>microtasks := [], wire := wire st @ map (JSON_stringify L) ps\<rparr>"
  using assms
proof (induction ps arbitrary: st)
  case Nil
  then show ?case by (simp add: drain_Nil)
next
  case (Cons p ps)
  let ?st1 = "run_cont L now (SendK p) (st\<lparr>microtasks := map SendK ps\<rparr>)"
  have "drain L now st = drain L now ?st1"
    using Cons.prems by (simp add: drain_Cons)
  also have "\<dots> = ?st1\<lparr>microtasks := [], wire := wire ?st1 @ map (JSON_stringify L) ps\<rparr>"
    by (rule Cons.IH) (simp add: ws_send_def)
  also have "\<dots> = st\<lparr>microtasks := [], wire := wire st @ map (JSON_stringify L) (p # ps)\<rparr>"
    by (simp add: ws_send_def)
  finally show ?case .
qed

lemma connect_resumed_connected:
  assumes "connected st"
  shows "(if truthy (key st) then snd (authenticate L now st) else st)
         = st\<lparr>wire := wire st @ login_frames L now st,
              authenticated := (authenticated st \<or> login_frames L now st \<noteq> [])\<rparr>"
  using assms
  by (cases "secret st")
     (simp_all add: login_frames_def authenticate_def authenticate_resume_def sendMessage_def
        ws_send_def)

lemma microtasks_empty_update: "microtasks s = [] \<Longrightarrow> s\<lparr>microtasks := []\<rparr> = s"
  by (cases s) simp

lemma drain_single:
  "drain L now (s\<lparr>microtasks := [k]\<rparr>) = drain L now (run_cont L now k (s\<lparr>microtasks := []\<rparr>))"
  by (simp add: drain_Cons[where k = k and ks = "[]"])

lemma task_ws_onopen_reconnect:
  assumes m: "m < length (sockets st)"
      and sock: "sockets st ! m = (url, [ConnectK (Some (ReconnectConnectedK h))])"
      and r: "isReadyHook st < length (promises st)" "promises st ! isReadyHook st = PendingP []"
      and h: "h < length (promises st)" "promises st ! h = PendingP (map SendK ps)"
      and hr: "h \<noteq> isReadyHook st"
      and q: "microtasks st = []"
  shows "wire (task L now (ws_onopen m) st)
           = wire st @ login_frames L now st
             @ map (\<lambda>sub. JSON_stringify L (subscribe_message sub)) (subscriptions st)
             @ map (JSON_stringify L) ps
       \<and> connected (task L now (ws_onopen m) st)
       \<and> microtasks (task L now (ws_onopen m) st) = []
       \<and> map id' (subscriptions (task L now (ws_onopen m) st)) = map id' (subscriptions st)"
proof -
  define st1 where "st1 = st\<lparr>connected := True,
                             promises := (promises st)[isReadyHook st := Fulfilled],
                             sockets := (sockets st)[m := (url, [])]\<rparr>"
  have open1: "ws_onopen m st = st1\<lparr>microtasks := [ConnectK (Some (ReconnectConnectedK h))]\<rparr>"
    using m sock r q by (simp add: ws_onopen_def resolve_def Let_def st1_def)
  define st2 where "st2 = st1\<lparr>wire := wire st1 @ login_frames L now st1,
                              authenticated := (authenticated st1 \<or> login_frames L now st1 \<noteq> [])\<rparr>"
  have c1: "connected st1" and q1: "microtasks st1 = []" by (simp_all add: st1_def q)
  have q2: "microtasks st2 = []" by (simp add: st2_def q1)
  have run1: "run_cont L now (ConnectK (Some (ReconnectConnectedK h))) st1
              = st2\<lparr>microtasks := [ReconnectConnectedK h]\<rparr>"
    using connect_resumed_connected[OF c1, of L now] q1
    by (simp add: st2_def enqueue_def)
  define st3 where "st3 = st2\<lparr>promises := (promises st2)[h := Fulfilled], microtasks := map SendK ps\<rparr>"
  have res: "resolve (isReadyHook (resolve h st2)) (resolve h st2) = st3"
    using h r hr q
    by (simp add: resolve_def st3_def st2_def st1_def)
  have c3: "connected st3" by (simp add: st3_def st2_def st1_def)
  have run2: "run_cont L now (ReconnectConnectedK h) st2 = replay L st3"
    using res by (simp add: Let_def)
  define st4 where "st4 = replay L st3"
  have st4: "st4 = st3\<lparr>subscriptions :=
                map (\<lambda>(p, sub). sub\<lparr>doneHook := Some p, done' := Some p\<rparr>)
                    (enumerate (length (promises st3)) (subscriptions st3)),
              promises := promises st3 @ replicate (length (subscriptions st3)) (PendingP []),
              wire := wire st3 @ map (\<lambda>sub. JSON_stringify L (subscribe_message sub)) (subscriptions st3)\<rparr>"
    unfolding st4_def using c3 by (rule replay_connected)
  have q4: "microtasks st4 = map SendK ps" by (simp add: st4 st3_def)
  have "task L now (ws_onopen m) st = drain L now (st1\<lparr>microtasks := [ConnectK (Some (ReconnectConnectedK h))]\<rparr>)"
    by (simp add: task_def open1)
  also have "\<dots> = drain L now (st2\<lparr>microtasks := [ReconnectConnectedK h]\<rparr>)"
    by (simp only: drain_single microtasks_empty_update[OF q1] run1)
  also have "\<dots> = drain L now st4"
    by (simp only: drain_single microtasks_empty_update[OF q2] run2 st4_def)
  also have "\<dots> = st4\<lparr>microtasks := [], wire := wire st4 @ map (JSON_stringify L) ps\<rparr>"
    using q4 by (rule drain_sends)
  finally have fin: "task L now (ws_onopen m) st
                     = st4\<lparr>microtasks := [], wire := wire st4 @ map (JSON_stringify L) ps\<rparr>" .
  have lf: "login_frames L now st1 = login_frames L now st"
    by (simp add: login_frames_def st1_def split: jsval.splits)
  have ids: "map id' (map (\<lambda>(p, sub). sub\<lparr>doneHook := Some p, done' := Some p\<rparr>)
                    (enumerate n (subscriptions st))) = map id' (subscriptions st)" for n
    by (auto intro!: nth_equalityI simp: nth_enumerate_eq)
  show ?thesis
    unfolding fin
    by (simp add: st4 st3_def st2_def st1_def lf[unfolded st1_def] ids[unfolded map_map])
qed

text \<open>
  Claim C5. Take a connection at rest (no microtask pending). Its transport closes;
  callers issue the sends \<open>ps1\<close>; the 500 ms timer of \<open>reconnect\<close> fires and a new
  transport is made; callers issue the sends \<open>ps2\<close>; the new transport opens. Until then
  nothing has been sent. In the task of the open event the transport receives, after
  the login frame if credentials are configured, the subscribe operation of every
  subscription registered before the close, once each and in registration order, and
  only then the queued sends, in the order of their calls.
\<close>

theorem replay_before_queued_sends:
  assumes "microtasks st = []"
  shows "let st1 = task L t1 ws_onclose st;
             st2 = send_all L t2 ps1 st1;
             st3 = task L t3 (timeout_fires (length (timeouts st))) st2;
             st4 = send_all L t4 ps2 st3;
             st5 = task L t5 (ws_onopen (length (sockets st))) st4
         in wire st4 = wire st
            \<and> wire st5 = wire st @ login_frames L t5 st
                 @ map (\<lambda>sub. JSON_stringify L (subscribe_message sub)) (subscriptions st)
                 @ map (JSON_stringify L) (ps1 @ ps2)
            \<and> connected st5
            \<and> map id' (subscriptions st5) = map id' (subscriptions st)"
proof -
  let ?n = "length (promises st)"
  define st1 where "st1 = task L t1 ws_onclose st"
  have st1: "st1 = st\<lparr>logs := logs st @ [(''[FTX] CLOSED CON'', [])],
              authenticated := False, connected := False,
              intervals := intervals (clearInterval (heartbeat st) st),
              reconnecting := True, pingAt := Cleared, pongAt := Cleared,
              promises := promises st @ [PendingP [], PendingP []],
              afterReconnect := Some ?n,
              isReady := Suc ?n, isReadyHook := Suc ?n,
              timeouts := timeouts st @ [Some (ReconnectWaitedK ?n)]\<rparr>"
    unfolding st1_def using assms by (rule task_ws_onclose)
  define st2 where "st2 = send_all L t2 ps1 st1"
  have st2: "st2 = st1\<lparr>promises := (promises st1)[?n := PendingP ([] @ map SendK ps1)]\<rparr>"
    unfolding st2_def by (rule send_all_reconnecting) (simp_all add: st1 assms nth_append)
  define st3 where "st3 = task L t3 (timeout_fires (length (timeouts st))) st2"
  have st3: "st3 = st2\<lparr>timeouts := (timeouts st2)[length (timeouts st) := None],
              logs := logs st2 @ [(''[FTX] RECONNECTING...'', [])],
              sockets := sockets st2 @
                [(''wss://'' @ toString (WSendpoint st2), [ConnectK (Some (ReconnectConnectedK ?n))])],
              intervals := intervals st2 @ [True],
              heartbeat := Some (length (intervals st2))\<rparr>"
    unfolding st3_def by (rule task_timeout_reconnect) (simp_all add: st2 st1 assms nth_append)
  define st4 where "st4 = send_all L t4 ps2 st3"
  have st4: "st4 = st3\<lparr>promises := (promises st3)[?n := PendingP (map SendK ps1 @ map SendK ps2)]\<rparr>"
    unfolding st4_def
    by (rule send_all_reconnecting) (simp_all add: st3 st2 st1 assms nth_append)
  define st5 where "st5 = task L t5 (ws_onopen (length (sockets st))) st4"
  have fin: "wire st5
           = wire st4 @ login_frames L t5 st4
             @ map (\<lambda>sub. JSON_stringify L (subscribe_message sub)) (subscriptions st4)
             @ map (JSON_stringify L) (ps1 @ ps2)
       \<and> connected st5
       \<and> microtasks st5 = []
       \<and> map id' (subscriptions st5) = map id' (subscriptions st4)"
    unfolding st5_def
    by (rule task_ws_onopen_reconnect[where h = ?n and url = "''wss://'' @ toString (WSendpoint st)"])
       (simp_all add: st4 st3 st2 st1 assms nth_append nth_list_update)
  have lf: "login_frames L t5 st4 = login_frames L t5 st"
    by (simp add: login_frames_def st4 st3 st2 st1 split: jsval.splits)
  have "wire st4 = wire st" "subscriptions st4 = subscriptions st"
    by (simp_all add: st4 st3 st2 st1)
  with fin lf show ?thesis
    by (simp add: Let_def st1_def[symmetric] st2_def[symmetric] st3_def[symmetric]
        st4_def[symmetric] st5_def[symmetric])
qed

theorem replay_before_queued_sends_witness:
  \<open>microtasks subscribed = []
   \<and> wire (send_all example_lib 10700 [Obj [(''op'', Str ''b'')]]
        (task example_lib 10500 (timeout_fires 0)
          (send_all example_lib 10200 [Obj [(''op'', Str ''a'')]]
            (task example_lib 10000 ws_onclose subscribed))))
       = [''{"op":"subscribe","market":"BTC-PERP","channel":"ticker"}'',
          ''{"op":"subscribe","channel":"fills"}'']
   \<and> wire (task example_lib 11000 (ws_onopen 1)
        (send_all example_lib 10700 [Obj [(''op'', Str ''b'')]]
          (task example_lib 10500 (timeout_fires 0)
            (send_all example_lib 10200 [Obj [(''op'', Str ''a'')]]
              (task example_lib 10000 ws_onclose subscribed)))))
       = [''{"op":"subscribe","market":"BTC-PERP","channel":"ticker"}'',
          ''{"op":"subscribe","channel":"fills"}'',
          ''{"op":"subscribe","market":"BTC-PERP","channel":"ticker"}'',
          ''{"op":"subscribe","channel":"fills"}'',
          ''{"op":"a"}'', ''{"op":"b"}'']\<close>
proof -
  have q: "microtasks subscribed = []" by (simp add: subscribed_eq opened_public)
  from replay_before_queued_sends[OF q, where L = example_lib and ?t1.0 = 10000 and ?t2.0 = 10200
      and ?ps1.0 = "[Obj [(''op'', Str ''a'')]]" and ?t3.0 = 10500 and ?t4.0 = 10700
      and ?ps2.0 = "[Obj [(''op'', Str ''b'')]]" and ?t5.0 = 11000]
  show ?thesis
    using q
    by (simp add: Let_def subscribed_eq opened_public login_frames_def example_lib_def quote_def
        subscribe_message_def)
qed

end
